theory Spec2Isabelle
  imports Main "HOL-Library.Word"
begin

section \<open>Values of the Go program\<close>

text \<open>
  The package wraps a Go \<open>error\<close> in a struct that also holds the program counters of
  the call stack. The sources hold two editions of \<open>error.go\<close>: the later one with the
  exported struct \<open>Error\<close> (fields \<open>Err\<close>, \<open>Stack\<close>, \<open>Description\<close>, \<open>Title\<close>,
  \<open>stack\<close>, \<open>frames\<close>) and the earlier one with the unexported struct \<open>wrappedError\<close>
  (fields \<open>err\<close>, \<open>stack\<close>, \<open>frames\<close>, \<open>prefix\<close>), and \<open>error_backward.go\<close> with
  the function \<open>Is\<close>. Both editions are modelled, each over a store of its own struct.

  A run of Go code ends in one of three ways: it returns, it panics, or it never
  returns (unbounded recursion along a cyclic chain of wrappers). A function that can
  panic returns \<open>panic + 'a\<close>; one that can also fail to return is a partial function
  into \<open>(panic + 'a) option\<close>, \<open>None\<close> standing for no return.
\<close>

type_synonym uintptr = "64 word"

datatype panic =
    NilDereference          \<comment> \<open>a method call on a nil interface, or a field read through a nil pointer\<close>
  | MakeSliceLenOutOfRange  \<comment> \<open>\<open>make([]uintptr, n)\<close> with \<open>n < 0\<close>\<close>

text \<open>
  A value of the interface type \<open>error\<close>, by its dynamic type:
  \<^item> \<open>Nil\<close>, the nil interface;
  \<^item> \<open>Ptr r\<close>, a pointer to the package's own wrapper struct; \<open>Ptr None\<close> is the nil
    pointer of that type, \<open>Ptr (Some a)\<close> the object at address \<open>a\<close> of the store;
  \<^item> \<open>ErrorString a t\<close>, the pointer \<open>fmt.Errorf\<close> returns: a fresh address and the text;
  \<^item> \<open>UncaughtPanic m\<close>, the package's value type for a captured runtime fault;
  \<^item> \<open>Foreign x\<close>, any other error of the caller's, with a comparable dynamic type.
  Go's \<open>==\<close> on two such values compares dynamic type and value: it is HOL's equality.
\<close>

datatype 'e error =
    Nil
  | Ptr "nat option"
  | ErrorString nat string
  | UncaughtPanic string
  | Foreign 'e

text \<open>An argument of type \<open>interface{}\<close>: an error (the nil interface included), or
  a value whose dynamic type does not implement \<open>error\<close>.\<close>

datatype ('e, 'v) iface =
    ErrorValue "'e error"
  | OtherValue 'v

fun isPtr :: "'e error \<Rightarrow> bool" where
  "isPtr (Ptr r) = True"
| "isPtr e = False"

definition deref :: "(nat \<rightharpoonup> 'o) \<Rightarrow> nat option \<Rightarrow> 'o option" where
  "deref h r = (case r of None \<Rightarrow> None | Some a \<Rightarrow> h a)"

subsection \<open>Stack frames\<close>

text \<open>
  Modelled from the spec: the struct \<open>StackFrame\<close>, its constructor \<open>NewStackFrame\<close>
  and its method \<open>String\<close> live in a file of the repository that is not among the
  sources. The record follows the spec's data model (raw address, function name,
  package, file path, line number); resolution of one address is the runtime's symbol
  table, a parameter of the model (\<open>FuncForPC\<close> below), and an address without debug
  information resolves to the placeholders the spec names.
\<close>

record StackFrame =
  File :: string
  LineNumber :: nat
  Name :: string
  Package :: string
  ProgramCounter :: uintptr

text \<open>
  What the package takes from its environment: the \<open>Error\<close> method and the type name
  of a foreign error, the text \<open>fmt\<close> renders for a format and its arguments, and the
  symbol table (package, function, file and line of an address, when known).
\<close>

record ('e, 'v) env =
  foreign_Error :: "'e \<Rightarrow> panic + string"
  foreign_TypeOf :: "'e \<Rightarrow> string"
  fmt_Sprintf :: "string \<Rightarrow> ('e, 'v) iface list \<Rightarrow> string"
  FuncForPC :: "uintptr \<Rightarrow> (string \<times> string \<times> string \<times> nat) option"

definition zeroFrame :: StackFrame where
  "zeroFrame = \<lparr>File = [], LineNumber = 0, Name = [], Package = [], ProgramCounter = 0\<rparr>"

definition NewStackFrame :: "('e, 'v) env \<Rightarrow> uintptr \<Rightarrow> StackFrame" where
  "NewStackFrame W pc =
     (case FuncForPC W pc of
        None \<Rightarrow> \<lparr>File = ''unknown'', LineNumber = 0, Name = [], Package = [], ProgramCounter = pc\<rparr>
      | Some (pkg, fn, file, line) \<Rightarrow>
          \<lparr>File = file, LineNumber = line, Name = fn, Package = pkg, ProgramCounter = pc\<rparr>)"

definition digit :: "nat \<Rightarrow> char" where
  "digit d = (''0123456789abcdef'') ! d"

fun decimal :: "nat \<Rightarrow> string" where
  "decimal n = (if n < 10 then [digit n] else decimal (n div 10) @ [digit (n mod 10)])"

fun hex :: "nat \<Rightarrow> string" where
  "hex n = (if n < 16 then [digit n] else hex (n div 16) @ [digit (n mod 16)])"

text \<open>
  Modelled from the spec: the Trace Formatter's block for one frame. Line 1 is the
  function name qualified by its package, or \<open>unknown\<close> when unresolved; line 2 is a tab,
  then file, line and address in hexadecimal, with \<open>unknown file\<close> and line 0 when
  resolution failed. Each line ends in a newline.
\<close>

definition StackFrame_String :: "StackFrame \<Rightarrow> string" where
  "StackFrame_String f =
     (if Name f = [] then ''unknown'' else Package f @ ''.'' @ Name f) @ [CHR 0x0A] @
     [CHR 0x09] @ (if File f = ''unknown'' then ''unknown file'' else File f) @ '':'' @
     decimal (LineNumber f) @ '' (+0x'' @ hex (unat (ProgramCounter f)) @ '')'' @ [CHR 0x0A]"

subsection \<open>The state of the program\<close>

text \<open>
  The store of wrapper objects (\<open>heap\<close>), the allocator's next free address, the
  package variable \<open>MaxStackDepth\<close>, and the log of the addresses handed to
  \<open>NewStackFrame\<close> so far, in call order. The log is how the model observes whether
  an address was resolved again.
\<close>

record 'o state =
  heap :: "nat \<rightharpoonup> 'o"
  next_addr :: nat
  MaxStackDepth :: int
  resolved :: "uintptr list"

text \<open>\<open>var MaxStackDepth = 50\<close>: the state in which the package starts.\<close>

definition initial_state :: "'o state" where
  "initial_state = \<lparr>heap = Map.empty, next_addr = 0, MaxStackDepth = 50, resolved = []\<rparr>"

definition alloc :: "'o \<Rightarrow> 'o state \<Rightarrow> nat \<times> 'o state" where
  "alloc obj s =
     (next_addr s, s\<lparr>heap := (heap s)(next_addr s \<mapsto> obj), next_addr := Suc (next_addr s)\<rparr>)"

text \<open>\<open>fmt.Errorf\<close> without a \<open>%w\<close> verb: a pointer to a new \<open>errorString\<close>.\<close>

definition fmt_Errorf :: "string \<Rightarrow> 'o state \<Rightarrow> 'e error \<times> 'o state" where
  "fmt_Errorf text s = (ErrorString (next_addr s) text, s\<lparr>next_addr := Suc (next_addr s)\<rparr>)"

text \<open>
  \<open>runtime.Callers(skip, buf)\<close> with a buffer of \<open>n\<close> entries, where \<open>cs\<close> is the
  goroutine's call stack at that call, innermost first: \<open>cs ! 0\<close> is \<open>runtime.Callers\<close>
  itself, \<open>cs ! 1\<close> the function that calls it. The result is \<open>buf[:length]\<close>.
  Every constructor below takes this \<open>cs\<close> as an argument. A negative \<open>skip\<close> is
  outside the contract of \<open>runtime.Callers\<close>; it is read as 0 here.
\<close>

definition runtime_Callers :: "int \<Rightarrow> nat \<Rightarrow> uintptr list \<Rightarrow> uintptr list" where
  "runtime_Callers skip n cs = take n (drop (nat skip) cs)"

text \<open>
  The three lines every constructor shares:
  \<^verbatim>\<open>s := make([]uintptr, MaxStackDepth); length := runtime.Callers(skip, s[:]); s[:length]\<close>
\<close>

definition capture :: "int \<Rightarrow> uintptr list \<Rightarrow> 'o state \<Rightarrow> panic + uintptr list" where
  "capture skip cs s =
     (if MaxStackDepth s < 0 then Inl MakeSliceLenOutOfRange
      else Inr (runtime_Callers skip (nat (MaxStackDepth s)) cs))"

text \<open>
  \<^verbatim>\<open>frames := make([]StackFrame, len(stack))
  for i, pc := range stack { frames[i] = NewStackFrame(pc) }\<close>
  The loop carries the index, the slice being filled and the log.
\<close>

fun stackFrames_loop ::
  "('e, 'v) env \<Rightarrow> nat \<Rightarrow> uintptr list \<Rightarrow> StackFrame list \<times> uintptr list \<Rightarrow> StackFrame list \<times> uintptr list"
where
  "stackFrames_loop W i [] (fs, lg) = (fs, lg)"
| "stackFrames_loop W i (pc # pcs) (fs, lg) =
     stackFrames_loop W (Suc i) pcs (fs[i := NewStackFrame W pc], lg @ [pc])"

definition stackFrames :: "('e, 'v) env \<Rightarrow> uintptr list \<Rightarrow> 'o state \<Rightarrow> StackFrame list \<times> 'o state" where
  "stackFrames W stk s =
     (case stackFrames_loop W 0 stk (replicate (length stk) zeroFrame, resolved s) of
        (fs, lg) \<Rightarrow> (fs, s\<lparr>resolved := lg\<rparr>))"

text \<open>
  \<^verbatim>\<open>for _, frame := range frames { buf.WriteString(frame.String()) }\<close>
  over a slice that may be nil (\<open>None\<close>).
\<close>

fun stack_loop :: "StackFrame list \<Rightarrow> string \<Rightarrow> string" where
  "stack_loop [] buf = buf"
| "stack_loop (f # fs) buf = stack_loop fs (buf @ StackFrame_String f)"

definition stack_bytes :: "StackFrame list option \<Rightarrow> string" where
  "stack_bytes fr = (case fr of None \<Rightarrow> [] | Some fs \<Rightarrow> stack_loop fs [])"

text \<open>\<open>reflect.TypeOf(e).String()\<close>; \<open>wrapper\<close> is the name of the package's own pointer type.
  \<open>reflect.TypeOf(nil)\<close> is nil and the call of \<open>String\<close> on it panics.\<close>

definition reflect_TypeOf_String :: "('e, 'v) env \<Rightarrow> string \<Rightarrow> 'e error \<Rightarrow> panic + string" where
  "reflect_TypeOf_String W wrapper e =
     (case e of
        Nil \<Rightarrow> Inl NilDereference
      | Ptr r \<Rightarrow> Inr wrapper
      | ErrorString a t \<Rightarrow> Inr ''*errors.errorString''
      | UncaughtPanic m \<Rightarrow> Inr ''errors.uncaughtPanic''
      | Foreign x \<Rightarrow> Inr (foreign_TypeOf W x))"

subsection \<open>Sequencing steps that may panic\<close>

text \<open>
  \<open>load\<close> reads an object through a pointer. \<open>thenE\<close> runs the next step on the value
  a step returned and passes a panic on; \<open>thenR\<close> does the same for a step that may
  also not return, and \<open>thenP\<close> for a total step followed by such a one.
\<close>

definition load :: "(nat \<rightharpoonup> 'o) \<Rightarrow> nat option \<Rightarrow> panic + 'o" where
  "load h r = (case deref h r of None \<Rightarrow> Inl NilDereference | Some w \<Rightarrow> Inr w)"

definition thenE :: "panic + 'a \<Rightarrow> ('a \<Rightarrow> panic + 'b) \<Rightarrow> panic + 'b" where
  "thenE m f = (case m of Inl p \<Rightarrow> Inl p | Inr x \<Rightarrow> f x)"

definition thenP :: "panic + 'a \<Rightarrow> ('a \<Rightarrow> (panic + 'b) option) \<Rightarrow> (panic + 'b) option" where
  "thenP m f = (case m of Inl p \<Rightarrow> Some (Inl p) | Inr x \<Rightarrow> f x)"

definition thenR :: "(panic + 'a) option \<Rightarrow> ('a \<Rightarrow> (panic + 'b) option) \<Rightarrow> (panic + 'b) option" where
  "thenR m f = (case m of None \<Rightarrow> None | Some y \<Rightarrow> (case y of Inl p \<Rightarrow> Some (Inl p) | Inr x \<Rightarrow> f x))"

section \<open>The later edition: the struct \<open>Error\<close>\<close>

record 'e Error =
  Err :: "'e error"
  Stack :: string
  Description :: string
  Title :: string
  stack :: "uintptr list"
  frames :: "StackFrame list option"

text \<open>
  The call \<open>e.Error()\<close> on an error value, by dynamic type. For a pointer to an
  \<open>Error\<close> it is the source's method
  \<^verbatim>\<open>func (err *Error) Error() string { return err.Err.Error() }\<close>
  which reads \<open>err.Err\<close> through the pointer and calls \<open>Error\<close> on the cause in turn.
\<close>

partial_function (option) error_Error ::
  "('e, 'v) env \<Rightarrow> (nat \<rightharpoonup> 'e Error) \<Rightarrow> 'e error \<Rightarrow> (panic + string) option"
where
  "error_Error W h e =
     (case e of
        Nil \<Rightarrow> Some (Inl NilDereference)
      | Ptr r \<Rightarrow>
          (case deref h r of
             None \<Rightarrow> Some (Inl NilDereference)
           | Some w \<Rightarrow> error_Error W h (Err w))
      | ErrorString a t \<Rightarrow> Some (Inr t)
      | UncaughtPanic m \<Rightarrow> Some (Inr m)
      | Foreign x \<Rightarrow> Some (foreign_Error W x))"

text \<open>
  \<^verbatim>\<open>func typeName(err error) string {
      if _, ok := err.(uncaughtPanic); ok { return "panic" }
      return reflect.TypeOf(err).String() }\<close>
\<close>

definition typeName :: "('e, 'v) env \<Rightarrow> 'e error \<Rightarrow> panic + string" where
  "typeName W e =
     (case e of
        UncaughtPanic m \<Rightarrow> Inr ''panic''
      | _ \<Rightarrow> reflect_TypeOf_String W ''*errors.Error'' e)"

text \<open>
  \<^verbatim>\<open>func errorStack(t string, err error, s []byte) string {
      return t + " " + err.Error() + "\n" + string(s) }\<close>
\<close>

definition errorStack ::
  "('e, 'v) env \<Rightarrow> (nat \<rightharpoonup> 'e Error) \<Rightarrow> string \<Rightarrow> 'e error \<Rightarrow> string \<Rightarrow> (panic + string) option"
where
  "errorStack W h t e s =
     thenR (error_Error W h e) (\<lambda>m. Some (Inr (t @ '' '' @ m @ [CHR 0x0A] @ s)))"

text \<open>
  The type switch of \<open>New\<close> and \<open>Custom\<close>:
  \<^verbatim>\<open>switch e := e.(type) { case error: err = e; default: err = fmt.Errorf("%v", e) }\<close>
  The nil interface has no dynamic type and takes the default branch.
\<close>

definition cause_of :: "('e, 'v) env \<Rightarrow> ('e, 'v) iface \<Rightarrow> 'o state \<Rightarrow> 'e error \<times> 'o state" where
  "cause_of W e s =
     (case e of
        ErrorValue x \<Rightarrow> (if x = Nil then fmt_Errorf (fmt_Sprintf W ''%v'' [e]) s else (x, s))
      | OtherValue v \<Rightarrow> fmt_Errorf (fmt_Sprintf W ''%v'' [e]) s)"

text \<open>
  \<open>New\<close>. The composite literal is evaluated in the order written: \<open>Title: err.Error()\<close>,
  then \<open>Stack: errorStack(typeName(err), err, stack(f))\<close>, then
  \<open>Description: err.Error()\<close>; only then is the object allocated.
\<close>

definition New ::
  "('e, 'v) env \<Rightarrow> ('e, 'v) iface \<Rightarrow> uintptr list \<Rightarrow> 'e Error state \<Rightarrow>
   (panic + nat option \<times> 'e Error state) option"
where
  "New W e cs s0 =
     (case cause_of W e s0 of (c, s1) \<Rightarrow>
      thenP (capture 2 cs s1) (\<lambda>st.
      case stackFrames W st s1 of (f, s2) \<Rightarrow>
      thenR (error_Error W (heap s2) c) (\<lambda>title.
      thenP (typeName W c) (\<lambda>t.
      thenR (errorStack W (heap s2) t c (stack_bytes (Some f))) (\<lambda>trace.
      thenR (error_Error W (heap s2) c) (\<lambda>desc.
      case alloc \<lparr>Err = c, Stack = trace, Description = desc, Title = title,
                  stack = st, frames = Some f\<rparr> s2 of
        (a, s3) \<Rightarrow> Some (Inr (Some a, s3))))))))"

text \<open>\<open>Custom\<close>: as \<open>New\<close>, with the given description and title; the literal does not
  set \<open>frames\<close>, which stays nil.\<close>

definition Custom ::
  "('e, 'v) env \<Rightarrow> ('e, 'v) iface \<Rightarrow> string \<Rightarrow> string \<Rightarrow> uintptr list \<Rightarrow> 'e Error state \<Rightarrow>
   (panic + nat option \<times> 'e Error state) option"
where
  "Custom W e desc title cs s0 =
     (case cause_of W e s0 of (c, s1) \<Rightarrow>
      thenP (capture 2 cs s1) (\<lambda>st.
      case stackFrames W st s1 of (f, s2) \<Rightarrow>
      thenP (typeName W c) (\<lambda>t.
      thenR (errorStack W (heap s2) t c (stack_bytes (Some f))) (\<lambda>trace.
      case alloc \<lparr>Err = c, Stack = trace, Description = desc, Title = title,
                  stack = st, frames = None\<rparr> s2 of
        (a, s3) \<Rightarrow> Some (Inr (Some a, s3))))))"

text \<open>
  \<open>Wrap\<close>. The type switch has the case \<open>*Error\<close> first, which returns the pointer it
  was given; \<open>Title\<close> and \<open>Description\<close> keep their zero value.
\<close>

definition Wrap ::
  "('e, 'v) env \<Rightarrow> ('e, 'v) iface \<Rightarrow> int \<Rightarrow> uintptr list \<Rightarrow> 'e Error state \<Rightarrow>
   (panic + nat option \<times> 'e Error state) option"
where
  "Wrap W e skip cs s0 =
     (case e of
        ErrorValue (Ptr r) \<Rightarrow> Some (Inr (r, s0))
      | _ \<Rightarrow>
         (case cause_of W e s0 of (c, s1) \<Rightarrow>
          thenP (capture (2 + skip) cs s1) (\<lambda>st.
          case stackFrames W st s1 of (f, s2) \<Rightarrow>
          thenP (typeName W c) (\<lambda>t.
          thenR (errorStack W (heap s2) t c (stack_bytes (Some f))) (\<lambda>trace.
          case alloc \<lparr>Err = c, Stack = trace, Description = [], Title = [],
                      stack = st, frames = Some f\<rparr> s2 of
            (a, s3) \<Rightarrow> Some (Inr (Some a, s3)))))))"

text \<open>\<^verbatim>\<open>func Errorf(format string, a ...interface{}) *Error {
      return Wrap(fmt.Errorf(format, a...), 1) }\<close>\<close>

definition Errorf ::
  "('e, 'v) env \<Rightarrow> string \<Rightarrow> ('e, 'v) iface list \<Rightarrow> uintptr list \<Rightarrow> 'e Error state \<Rightarrow>
   (panic + nat option \<times> 'e Error state) option"
where
  "Errorf W format a cs s0 =
     (case fmt_Errorf (fmt_Sprintf W format a) s0 of
        (c, s1) \<Rightarrow> Wrap W (ErrorValue c) 1 cs s1)"

text \<open>
  \<open>Is\<close>, the same text in \<open>error_backward.go\<close> and in \<open>error.go\<close>:
  \<^verbatim>\<open>if e == original { return true }
  if e, ok := e.(*Error); ok { return Is(e.Err, original) }
  if original, ok := original.(*Error); ok { return Is(e, original.Err) }
  return false\<close>
\<close>

partial_function (option) Is ::
  "(nat \<rightharpoonup> 'e Error) \<Rightarrow> 'e error \<Rightarrow> 'e error \<Rightarrow> (panic + bool) option"
where
  "Is h e original =
     (if e = original then Some (Inr True)
      else case e of
        Ptr r \<Rightarrow>
          (case deref h r of
             None \<Rightarrow> Some (Inl NilDereference)
           | Some w \<Rightarrow> Is h (Err w) original)
      | _ \<Rightarrow>
          (case original of
             Ptr r \<Rightarrow>
               (case deref h r of
                  None \<Rightarrow> Some (Inl NilDereference)
                | Some w \<Rightarrow> Is h e (Err w))
           | _ \<Rightarrow> Some (Inr False)))"

text \<open>
  \<^verbatim>\<open>func (err *Error) StackFrames() []StackFrame {
      if err.frames == nil { err.frames = stackFrames(err.stack) }
      return err.frames }\<close>
  The receiver is a pointer: the assignment writes the object in the store.
\<close>

definition store :: "nat option \<Rightarrow> 'o \<Rightarrow> 'o state \<Rightarrow> 'o state" where
  "store r w s = (case r of None \<Rightarrow> s | Some a \<Rightarrow> s\<lparr>heap := (heap s)(a \<mapsto> w)\<rparr>)"

definition Error_StackFrames ::
  "('e, 'v) env \<Rightarrow> nat option \<Rightarrow> 'e Error state \<Rightarrow> panic + StackFrame list option \<times> 'e Error state"
where
  "Error_StackFrames W r s =
     thenE (load (heap s) r) (\<lambda>w.
       case frames w of
         Some fs \<Rightarrow> Inr (Some fs, s)
       | None \<Rightarrow>
           (case stackFrames W (stack w) s of
              (fs, s1) \<Rightarrow> Inr (Some fs, store r (w\<lparr>frames := Some fs\<rparr>) s1)))"

text \<open>
  \<^verbatim>\<open>func (err *Error) StackTrace() []byte {
      if err.frames == nil { err.frames = err.StackFrames() }
      return stack(err.frames) }\<close>
\<close>

definition Error_StackTrace ::
  "('e, 'v) env \<Rightarrow> nat option \<Rightarrow> 'e Error state \<Rightarrow> panic + string \<times> 'e Error state"
where
  "Error_StackTrace W r s =
     thenE (load (heap s) r) (\<lambda>w.
       case frames w of
         Some fs \<Rightarrow> Inr (stack_bytes (Some fs), s)
       | None \<Rightarrow>
           thenE (Error_StackFrames W r s) (\<lambda>(fr, s1).
           thenE (load (heap s1) r) (\<lambda>w1.
             Inr (stack_bytes fr, store r (w1\<lparr>frames := fr\<rparr>) s1))))"

text \<open>\<^verbatim>\<open>func (err *Error) TypeName() string { return typeName(err.Err) }\<close>\<close>

definition Error_TypeName ::
  "('e, 'v) env \<Rightarrow> (nat \<rightharpoonup> 'e Error) \<Rightarrow> nat option \<Rightarrow> panic + string"
where
  "Error_TypeName W h r = thenE (load h r) (\<lambda>w. typeName W (Err w))"

text \<open>
  \<^verbatim>\<open>func (err *Error) ErrorStack() string {
      return errorStack(err.TypeName(), err, err.StackTrace()) }\<close>
  The arguments are evaluated left to right, so \<open>err.Error()\<close>, called inside
  \<open>errorStack\<close>, runs on the store that \<open>StackTrace\<close> leaves.
\<close>

definition Error_ErrorStack ::
  "('e, 'v) env \<Rightarrow> nat option \<Rightarrow> 'e Error state \<Rightarrow> (panic + string \<times> 'e Error state) option"
where
  "Error_ErrorStack W r s =
     thenP (Error_TypeName W (heap s) r) (\<lambda>t.
     thenP (Error_StackTrace W r s) (\<lambda>(trace, s1).
     thenR (errorStack W (heap s1) t (Ptr r) trace) (\<lambda>text.
       Some (Inr (text, s1)))))"

section \<open>The earlier edition: the struct \<open>wrappedError\<close>\<close>

text \<open>The fields \<open>stack\<close> and \<open>frames\<close> of this struct are \<open>stack1\<close> and \<open>frames1\<close>
  here, the plain names being those of the record \<open>Error\<close>; the functions of this edition
  that share a name with one of the later edition carry the suffix \<open>1\<close>.\<close>

record 'e wrappedError =
  err :: "'e error"
  stack1 :: "uintptr list"
  frames1 :: "StackFrame list option"
  prefix :: string

text \<open>
  The call \<open>e.Error()\<close> in this edition. The method has a value receiver,
  \<^verbatim>\<open>func (err wrappedError) Error() string {
      msg := err.err.Error()
      if err.prefix != "" { msg = fmt.Sprintf("%s: %s", err.prefix, msg) }
      return msg }\<close>
  so a call through a pointer copies the object first, and panics on the nil pointer.
\<close>

partial_function (option) error_Error1 ::
  "('e, 'v) env \<Rightarrow> (nat \<rightharpoonup> 'e wrappedError) \<Rightarrow> 'e error \<Rightarrow> (panic + string) option"
where
  "error_Error1 W h e =
     (case e of
        Nil \<Rightarrow> Some (Inl NilDereference)
      | Ptr r \<Rightarrow>
          (case deref h r of
             None \<Rightarrow> Some (Inl NilDereference)
           | Some w \<Rightarrow>
               Option.bind (error_Error1 W h (err w))
                 (\<lambda>y. Some (case y of
                      Inl p \<Rightarrow> Inl p
                    | Inr msg \<Rightarrow> Inr (if prefix w \<noteq> [] then prefix w @ '': '' @ msg else msg))))
      | ErrorString a t \<Rightarrow> Some (Inr t)
      | UncaughtPanic m \<Rightarrow> Some (Inr m)
      | Foreign x \<Rightarrow> Some (foreign_Error W x))"

text \<open>\<open>New\<close> of this edition: the literal sets \<open>err\<close> and \<open>stack\<close> only, and calls
  no method of the cause.\<close>

definition New1 ::
  "('e, 'v) env \<Rightarrow> ('e, 'v) iface \<Rightarrow> uintptr list \<Rightarrow> 'e wrappedError state \<Rightarrow>
   panic + nat option \<times> 'e wrappedError state"
where
  "New1 W e cs s0 =
     (case cause_of W e s0 of (c, s1) \<Rightarrow>
      thenE (capture 2 cs s1) (\<lambda>st.
      case alloc \<lparr>err = c, stack1 = st, frames1 = None, prefix = []\<rparr> s1 of
        (a, s2) \<Rightarrow> Inr (Some a, s2)))"

text \<open>\<open>Wrap\<close> of this edition: the case \<open>*wrappedError\<close> comes first and returns the
  pointer it was given.\<close>

definition Wrap1 ::
  "('e, 'v) env \<Rightarrow> ('e, 'v) iface \<Rightarrow> int \<Rightarrow> uintptr list \<Rightarrow> 'e wrappedError state \<Rightarrow>
   panic + nat option \<times> 'e wrappedError state"
where
  "Wrap1 W e skip cs s0 =
     (case e of
        ErrorValue (Ptr r) \<Rightarrow> Inr (r, s0)
      | _ \<Rightarrow>
         (case cause_of W e s0 of (c, s1) \<Rightarrow>
          thenE (capture (2 + skip) cs s1) (\<lambda>st.
          case alloc \<lparr>err = c, stack1 = st, frames1 = None, prefix = []\<rparr> s1 of
            (a, s2) \<Rightarrow> Inr (Some a, s2))))"

text \<open>
  \<^verbatim>\<open>func WrapPrefix(e interface{}, prefix string, skip int) Error {
      err := Wrap(e, skip).(*wrappedError)
      if err.prefix != "" { err.prefix = fmt.Sprintf("%s: %s", prefix, err.prefix)
      } else { err.prefix = prefix }
      return err }\<close>
  \<open>err\<close> is the pointer \<open>Wrap\<close> returned: the assignment writes the object in the store.
\<close>

definition WrapPrefix ::
  "('e, 'v) env \<Rightarrow> ('e, 'v) iface \<Rightarrow> string \<Rightarrow> int \<Rightarrow> uintptr list \<Rightarrow> 'e wrappedError state \<Rightarrow>
   panic + nat option \<times> 'e wrappedError state"
where
  "WrapPrefix W e pre skip cs s0 =
     thenE (Wrap1 W e skip cs s0) (\<lambda>(r, s1).
     thenE (load (heap s1) r) (\<lambda>w.
       if prefix w \<noteq> []
       then Inr (r, store r (w\<lparr>prefix := pre @ '': '' @ prefix w\<rparr>) s1)
       else Inr (r, store r (w\<lparr>prefix := pre\<rparr>) s1)))"

definition Errorf1 ::
  "('e, 'v) env \<Rightarrow> string \<Rightarrow> ('e, 'v) iface list \<Rightarrow> uintptr list \<Rightarrow> 'e wrappedError state \<Rightarrow>
   panic + nat option \<times> 'e wrappedError state"
where
  "Errorf1 W format a cs s0 =
     (case fmt_Errorf (fmt_Sprintf W format a) s0 of
        (c, s1) \<Rightarrow> Wrap1 W (ErrorValue c) 1 cs s1)"

text \<open>
  \<^verbatim>\<open>func (err wrappedError) StackFrames() []StackFrame {
      if err.frames == nil {
          err.frames = make([]StackFrame, len(err.stack))
          for i, pc := range err.stack { err.frames[i] = NewStackFrame(pc) } }
      return err.frames }\<close>
  The receiver is a value: \<open>err\<close> is the method's own copy of the object, the
  assignment to \<open>err.frames\<close> changes that copy, and the object in the store keeps
  the \<open>frames\<close> it had.
\<close>

definition wrappedError_StackFrames ::
  "('e, 'v) env \<Rightarrow> nat option \<Rightarrow> 'e wrappedError state \<Rightarrow>
   panic + StackFrame list option \<times> 'e wrappedError state"
where
  "wrappedError_StackFrames W r s =
     thenE (load (heap s) r) (\<lambda>w.
       case frames1 w of
         Some fs \<Rightarrow> Inr (Some fs, s)
       | None \<Rightarrow>
           (case stackFrames W (stack1 w) s of
              (fs, s1) \<Rightarrow> Inr (frames1 (w\<lparr>frames1 := Some fs\<rparr>), s1)))"

text \<open>
  \<^verbatim>\<open>func (err wrappedError) Stack() []byte {
      buf := bytes.Buffer{}
      for _, frame := range err.StackFrames() { buf.WriteString(frame.String()) }
      return buf.Bytes() }\<close>
\<close>

definition wrappedError_Stack ::
  "('e, 'v) env \<Rightarrow> nat option \<Rightarrow> 'e wrappedError state \<Rightarrow> panic + string \<times> 'e wrappedError state"
where
  "wrappedError_Stack W r s =
     thenE (wrappedError_StackFrames W r s) (\<lambda>(fr, s1). Inr (stack_bytes fr, s1))"

text \<open>
  \<^verbatim>\<open>func (err wrappedError) TypeName() string {
      if _, ok := err.err.(uncaughtPanic); ok { return "panic" }
      return reflect.TypeOf(err.err).String() }\<close>
\<close>

definition wrappedError_TypeName ::
  "('e, 'v) env \<Rightarrow> (nat \<rightharpoonup> 'e wrappedError) \<Rightarrow> nat option \<Rightarrow> panic + string"
where
  "wrappedError_TypeName W h r =
     thenE (load h r) (\<lambda>w.
       case err w of
         UncaughtPanic m \<Rightarrow> Inr ''panic''
       | _ \<Rightarrow> reflect_TypeOf_String W ''*errors.wrappedError'' (err w))"

text \<open>
  \<^verbatim>\<open>func (err wrappedError) ErrorStack() string {
      return err.TypeName() + " " + err.Error() + "\n" + string(err.Stack()) }\<close>
\<close>

definition wrappedError_ErrorStack ::
  "('e, 'v) env \<Rightarrow> nat option \<Rightarrow> 'e wrappedError state \<Rightarrow>
   (panic + string \<times> 'e wrappedError state) option"
where
  "wrappedError_ErrorStack W r s =
     thenP (wrappedError_TypeName W (heap s) r) (\<lambda>t.
     thenR (error_Error1 W (heap s) (Ptr r)) (\<lambda>m.
     thenP (wrappedError_Stack W r s) (\<lambda>(trace, s1).
       Some (Inr (t @ '' '' @ m @ [CHR 0x0A] @ trace, s1)))))"

section \<open>Chains of wrappers\<close>

text \<open>
  \<open>unwrapN n h e\<close> strips \<open>n\<close> wrapper layers off \<open>e\<close> in the store \<open>h\<close>: it is the
  value reached by reading the field \<open>Err\<close> \<open>n\<close> times, and \<open>None\<close> when that path meets
  a value that is not a wrapper, or a nil pointer, before. So \<open>unwrapN n h e' = Some e\<close>
  says that \<open>e'\<close> is \<open>e\<close> wrapped \<open>n\<close> times, and \<open>unwrapN n h e = Some c\<close> with
  \<open>\<not> isPtr c\<close> that the chain of \<open>e\<close> ends, after \<open>n\<close> wrappers, in the cause \<open>c\<close>.
\<close>

fun unwrapN :: "nat \<Rightarrow> (nat \<rightharpoonup> 'e Error) \<Rightarrow> 'e error \<Rightarrow> 'e error option" where
  "unwrapN 0 h e = Some e"
| "unwrapN (Suc n) h e =
     (case e of
        Ptr r \<Rightarrow> (case deref h r of None \<Rightarrow> None | Some w \<Rightarrow> unwrapN n h (Err w))
      | _ \<Rightarrow> None)"

text \<open>The same for the store of the earlier edition, whose cause field is \<open>err\<close>.\<close>

fun unwrapN1 :: "nat \<Rightarrow> (nat \<rightharpoonup> 'e wrappedError) \<Rightarrow> 'e error \<Rightarrow> 'e error option" where
  "unwrapN1 0 h e = Some e"
| "unwrapN1 (Suc n) h e =
     (case e of
        Ptr r \<Rightarrow> (case deref h r of None \<Rightarrow> None | Some w \<Rightarrow> unwrapN1 n h (err w))
      | _ \<Rightarrow> None)"

section \<open>\<open>Is\<close> where errors can carry an equality hook\<close>

text \<open>
  Modelled from the spec: the build of \<open>Is\<close> for Go 1.13 and later is not among the
  sources; only its test \<open>TestIs113\<close> is. The spec gives it the steps of \<open>Is\<close> above
  with one change: where both operands are unwrapped and are not identical, the
  comparison is delegated to the custom equality hook of the first operand instead of
  failing. \<open>hook x\<close> is the hook the foreign error \<open>x\<close> implements, if it does; a hook
  takes the other operand and returns its verdict.
\<close>

definition matches :: "('e \<Rightarrow> ('e error \<Rightarrow> bool) option) \<Rightarrow> 'e error \<Rightarrow> 'e error \<Rightarrow> bool" where
  "matches hook e original =
     (case e of
        Foreign x \<Rightarrow> (case hook x of None \<Rightarrow> False | Some f \<Rightarrow> f original)
      | _ \<Rightarrow> False)"

partial_function (option) Is113 ::
  "('e \<Rightarrow> ('e error \<Rightarrow> bool) option) \<Rightarrow> (nat \<rightharpoonup> 'e Error) \<Rightarrow> 'e error \<Rightarrow> 'e error \<Rightarrow>
   (panic + bool) option"
where
  "Is113 hook h e original =
     (if e = original then Some (Inr True)
      else case e of
        Ptr r \<Rightarrow>
          (case deref h r of
             None \<Rightarrow> Some (Inl NilDereference)
           | Some w \<Rightarrow> Is113 hook h (Err w) original)
      | _ \<Rightarrow>
          (case original of
             Ptr r \<Rightarrow>
               (case deref h r of
                  None \<Rightarrow> Some (Inl NilDereference)
                | Some w \<Rightarrow> Is113 hook h e (Err w))
           | _ \<Rightarrow> Some (Inr (matches hook e original))))"

section \<open>The error type of the package's test, and values for concrete runs\<close>

text \<open>
  The test file declares a foreign error with a key and a cause:
  \<^verbatim>\<open>type errorWithCustomIs struct { Key string; Err error }
  func (ewci errorWithCustomIs) Error() string {
      return "[" + ewci.Key + "]: " + ewci.Err.Error() }\<close>
  and uses it with the cause \<open>io.EOF\<close> or with no cause at all. The model keeps these two
  shapes: the field \<open>Err\<close> is \<open>None\<close> (the nil interface) or another error of this
  type. \<open>Error\<close> calls a method on \<open>ewci.Err\<close>, which panics when that field is nil.
\<close>

datatype test_error = EOF | errorWithCustomIs string "test_error option"

fun test_error_Error :: "test_error \<Rightarrow> panic + string" where
  "test_error_Error EOF = Inr ''EOF''"
| "test_error_Error (errorWithCustomIs k c) =
     (case c of
        None \<Rightarrow> Inl NilDereference
      | Some x \<Rightarrow> thenE (test_error_Error x) (\<lambda>m. Inr (''['' @ k @ '']: '' @ m)))"

text \<open>
  The hook of the test's error type:
  \<^verbatim>\<open>func (ewci errorWithCustomIs) Is(target error) bool {
      matched, ok := target.(errorWithCustomIs)
      return ok && matched.Key == ewci.Key }\<close>
\<close>

definition test_error_Is :: "test_error \<Rightarrow> (test_error error \<Rightarrow> bool) option" where
  "test_error_Is x =
     (case x of
        EOF \<Rightarrow> None
      | errorWithCustomIs k c \<Rightarrow>
          Some (\<lambda>target. case target of
                  Foreign y \<Rightarrow> (case y of EOF \<Rightarrow> False | errorWithCustomIs k' c' \<Rightarrow> k' = k)
                | _ \<Rightarrow> False))"

text \<open>An environment with this error type, whose symbol table knows no address.\<close>

definition test_env :: "(test_error, unit) env" where
  "test_env =
     \<lparr>foreign_Error = test_error_Error,
      foreign_TypeOf = (\<lambda>x. case x of EOF \<Rightarrow> ''*errors.errorString''
                                | errorWithCustomIs k c \<Rightarrow> ''errors.errorWithCustomIs''),
      fmt_Sprintf = (\<lambda>format a. format),
      FuncForPC = (\<lambda>pc. None)\<rparr>"

text \<open>The values of \<open>TestIs113\<close>.\<close>

definition custErr :: "test_error error" where
  "custErr = Foreign (errorWithCustomIs ''TestForFun'' (Some EOF))"

definition shouldMatch :: "test_error error" where
  "shouldMatch = Foreign (errorWithCustomIs ''TestForFun'' None)"

definition shouldNotMatch :: "test_error error" where
  "shouldNotMatch = Foreign (errorWithCustomIs ''notOk'' None)"

text \<open>Objects and stores of the later edition: a wrapper of a given cause that
  captured nothing; a store with \<open>io.EOF\<close> wrapped twice; the store of \<open>TestIs113\<close>, with
  \<open>New(x)\<close> read as the wrapper of \<open>x\<close>; a wrapper of a captured runtime fault; and a
  state with one wrapper of \<open>io.EOF\<close> that captured the addresses 3 and 4.\<close>

definition wrapper_of :: "'e error \<Rightarrow> 'e Error" where
  "wrapper_of c = \<lparr>Err = c, Stack = [], Description = [], Title = [], stack = [], frames = None\<rparr>"

definition two_layers :: "nat \<rightharpoonup> test_error Error" where
  "two_layers = [0 \<mapsto> wrapper_of (Foreign EOF), 1 \<mapsto> wrapper_of (Ptr (Some 0))]"

definition test_heap :: "nat \<rightharpoonup> test_error Error" where
  "test_heap = [0 \<mapsto> wrapper_of custErr, 1 \<mapsto> wrapper_of shouldMatch, 2 \<mapsto> wrapper_of shouldNotMatch]"

definition panic_wrapper :: "test_error Error" where
  "panic_wrapper = \<lparr>Err = UncaughtPanic ''index out of range'', Stack = [], Description = [],
     Title = [], stack = [], frames = None\<rparr>"

definition eof_wrapper :: "test_error Error" where
  "eof_wrapper = \<lparr>Err = Foreign EOF, Stack = [], Description = [], Title = [],
     stack = [3, 4], frames = None\<rparr>"

definition one_wrapper :: "test_error Error state" where
  "one_wrapper = \<lparr>heap = [0 \<mapsto> eof_wrapper], next_addr = 1, MaxStackDepth = 50, resolved = []\<rparr>"

text \<open>The like objects of the earlier edition.\<close>

definition panic_wrapper1 :: "test_error wrappedError" where
  "panic_wrapper1 = \<lparr>err = UncaughtPanic ''index out of range'', stack1 = [], frames1 = None,
     prefix = []\<rparr>"

definition eof_wrapper1 :: "test_error wrappedError" where
  "eof_wrapper1 = \<lparr>err = Foreign EOF, stack1 = [3, 4], frames1 = None, prefix = []\<rparr>"

definition one_wrapper1 :: "test_error wrappedError state" where
  "one_wrapper1 = \<lparr>heap = [0 \<mapsto> eof_wrapper1], next_addr = 1, MaxStackDepth = 50, resolved = []\<rparr>"

section \<open>Basic facts\<close>

lemma thenE_simps:
  "thenE (Inl p) f = Inl p" "thenE (Inr x) f = f x"
  by (simp_all add: thenE_def)

lemma thenP_simps:
  "thenP (Inl p) g = Some (Inl p)" "thenP (Inr x) g = g x"
  by (simp_all add: thenP_def)

lemma thenR_simps:
  "thenR None g = None" "thenR (Some (Inl p)) g = Some (Inl p)" "thenR (Some (Inr x)) g = g x"
  by (simp_all add: thenR_def)

lemma load_simps:
  "load h None = Inl NilDereference"
  "load h (Some a) = (case h a of None \<Rightarrow> Inl NilDereference | Some w \<Rightarrow> Inr w)"
  by (simp_all add: load_def deref_def)

subsection \<open>The two loops\<close>

lemma stackFrames_loop_log:
  "snd (stackFrames_loop W i pcs (fs, lg)) = lg @ pcs"
  by (induction pcs arbitrary: i fs lg) auto

lemma stackFrames_loop_length:
  "length (fst (stackFrames_loop W i pcs (fs, lg))) = length fs"
  by (induction pcs arbitrary: i fs lg) auto

lemma stackFrames_loop_nth:
  "i + length pcs \<le> length fs \<Longrightarrow>
   fst (stackFrames_loop W i pcs (fs, lg)) ! k =
     (if i \<le> k \<and> k < i + length pcs then NewStackFrame W (pcs ! (k - i)) else fs ! k)"
proof (induction pcs arbitrary: i fs lg)
  case Nil
  then show ?case by auto
next
  case (Cons pc pcs)
  have "Suc i + length pcs \<le> length (fs[i := NewStackFrame W pc])"
    using Cons.prems by simp
  from Cons.IH[OF this] show ?case
    using Cons.prems by (auto simp: nth_list_update nth_Cons')
qed

lemma stackFrames_loop_map:
  "fst (stackFrames_loop W 0 pcs (replicate (length pcs) zeroFrame, lg)) = map (NewStackFrame W) pcs"
  by (rule nth_equalityI) (simp_all add: stackFrames_loop_length stackFrames_loop_nth)

text \<open>\<open>stackFrames\<close> resolves every address once, in order, and logs exactly those calls.\<close>

lemma stackFrames_eq:
  "stackFrames W stk s = (map (NewStackFrame W) stk, s\<lparr>resolved := resolved s @ stk\<rparr>)"
  using stackFrames_loop_map[of W stk "resolved s"]
    stackFrames_loop_log[of W 0 stk "replicate (length stk) zeroFrame" "resolved s"]
  by (cases "stackFrames_loop W 0 stk (replicate (length stk) zeroFrame, resolved s)")
     (simp add: stackFrames_def)

lemma stack_loop_eq: "stack_loop fs buf = buf @ concat (map StackFrame_String fs)"
  by (induction fs arbitrary: buf) auto

lemma stack_bytes_Some: "stack_bytes (Some fs) = concat (map StackFrame_String fs)"
  by (simp add: stack_bytes_def stack_loop_eq)

lemma StackFrame_String_nonempty: "StackFrame_String f \<noteq> []"
  by (simp add: StackFrame_String_def)

section \<open>\<open>Wrap\<close> on a value that is already a wrapper\<close>

text \<open>
  Claim C3. For every pointer to a wrapper and every \<open>skip\<close>, \<open>Wrap\<close> returns the
  pointer it was given and leaves the whole state as it was: no object is allocated,
  no stack is captured, no field of the wrapper changes. This holds in both editions,
  and for every \<open>skip\<close>, the non-negative ones included.
\<close>

theorem Wrap_of_wrapper_is_identity:
  "Wrap W (ErrorValue (Ptr r)) skip cs s = Some (Inr (r, s)) \<and>
   Wrap1 W (ErrorValue (Ptr r)) skip cs s1 = Inr (r, s1)"
  by (simp add: Wrap_def Wrap1_def)

section \<open>\<open>TypeName\<close>\<close>

text \<open>
  Claim C8. For a wrapper whose cause is a captured runtime fault, whatever the fault
  holds, \<open>TypeName\<close> returns the text \<open>panic\<close>; for every other cause it returns the name
  \<open>reflect\<close> gives the cause's dynamic type, qualified by its package: \<open>*errors.Error\<close>
  or \<open>*errors.wrappedError\<close> for a nested wrapper, \<open>*errors.errorString\<close> for an error
  made by \<open>fmt.Errorf\<close>, and the foreign type's own name for a foreign error. Both
  editions agree. (A wrapper has a cause; on a struct whose cause is the nil interface
  the call panics, see \<open>TypeName_without_cause\<close>.)
\<close>

theorem TypeName_of_wrapper:
  assumes "h a = Some w" and "h1 a1 = Some w1"
  shows
    "(Err w = UncaughtPanic m \<longrightarrow> Error_TypeName W h (Some a) = Inr ''panic'') \<and>
     (Err w = Ptr r \<longrightarrow> Error_TypeName W h (Some a) = Inr ''*errors.Error'') \<and>
     (Err w = ErrorString b t \<longrightarrow> Error_TypeName W h (Some a) = Inr ''*errors.errorString'') \<and>
     (Err w = Foreign x \<longrightarrow> Error_TypeName W h (Some a) = Inr (foreign_TypeOf W x)) \<and>
     (err w1 = UncaughtPanic m \<longrightarrow> wrappedError_TypeName W h1 (Some a1) = Inr ''panic'') \<and>
     (err w1 = Ptr r \<longrightarrow> wrappedError_TypeName W h1 (Some a1) = Inr ''*errors.wrappedError'') \<and>
     (err w1 = ErrorString b t \<longrightarrow> wrappedError_TypeName W h1 (Some a1) = Inr ''*errors.errorString'') \<and>
     (err w1 = Foreign x \<longrightarrow> wrappedError_TypeName W h1 (Some a1) = Inr (foreign_TypeOf W x))"
proof -
  have l: "load h (Some a) = Inr w" "load h1 (Some a1) = Inr w1"
    using assms by (simp_all add: load_simps)
  show ?thesis
    by (simp add: Error_TypeName_def wrappedError_TypeName_def l thenE_simps typeName_def
        reflect_TypeOf_String_def)
qed

theorem TypeName_of_wrapper_witness:
  "Error_TypeName test_env [0 \<mapsto> panic_wrapper] (Some 0) = Inr ''panic'' \<and>
   wrappedError_TypeName test_env [0 \<mapsto> panic_wrapper1] (Some 0) = Inr ''panic''"
  using TypeName_of_wrapper[of "[0 \<mapsto> panic_wrapper]" 0 panic_wrapper
      "[0 \<mapsto> panic_wrapper1]" 0 panic_wrapper1 "''index out of range''" test_env]
  by (simp add: panic_wrapper_def panic_wrapper1_def)

lemma TypeName_without_cause:
  "h a = Some w \<Longrightarrow> Err w = Nil \<Longrightarrow> Error_TypeName W h (Some a) = Inl NilDereference"
  by (simp add: Error_TypeName_def load_simps thenE_simps typeName_def reflect_TypeOf_String_def)

section \<open>What the constructors of the later edition build\<close>

lemma cause_of_cases:
  "cause_of W e s = (c, s1) \<Longrightarrow>
   (s1 = s \<or> s1 = s\<lparr>next_addr := Suc (next_addr s)\<rparr>) \<and> c \<noteq> Nil"
  by (auto simp: cause_of_def fmt_Errorf_def split: iface.splits if_splits)

lemma capture_Inr:
  "capture k cs s = Inr st \<Longrightarrow>
   0 \<le> MaxStackDepth s \<and> st = runtime_Callers k (nat (MaxStackDepth s)) cs \<and>
   int (length st) \<le> MaxStackDepth s"
  by (auto simp: capture_def runtime_Callers_def split: if_splits)

lemma New_result:
  assumes "New W e cs s = Some (Inr (q, s'))"
  shows "\<exists>c s1 st trace m.
           cause_of W e s = (c, s1) \<and> capture 2 cs s1 = Inr st \<and>
           error_Error W (heap s1) c = Some (Inr m) \<and>
           q = Some (next_addr s1) \<and>
           s' = s1\<lparr>resolved := resolved s1 @ st,
                   heap := (heap s1)(next_addr s1 \<mapsto>
                     \<lparr>Err = c, Stack = trace, Description = m, Title = m, stack = st,
                      frames = Some (map (NewStackFrame W) st)\<rparr>),
                   next_addr := Suc (next_addr s1)\<rparr>"
  using assms
  by (auto simp: New_def thenP_def thenR_def stackFrames_eq alloc_def errorStack_def
      split: prod.splits sum.splits option.splits)

lemma Custom_result:
  assumes "Custom W e d t cs s = Some (Inr (q, s'))"
  shows "\<exists>c s1 st trace.
           cause_of W e s = (c, s1) \<and> capture 2 cs s1 = Inr st \<and>
           q = Some (next_addr s1) \<and>
           s' = s1\<lparr>resolved := resolved s1 @ st,
                   heap := (heap s1)(next_addr s1 \<mapsto>
                     \<lparr>Err = c, Stack = trace, Description = d, Title = t, stack = st,
                      frames = None\<rparr>),
                   next_addr := Suc (next_addr s1)\<rparr>"
  using assms
  by (auto simp: Custom_def thenP_def thenR_def stackFrames_eq alloc_def errorStack_def
      split: prod.splits sum.splits option.splits)

lemma Wrap_result:
  assumes "Wrap W e skip cs s = Some (Inr (q, s'))" and "\<forall>r. e \<noteq> ErrorValue (Ptr r)"
  shows "\<exists>c s1 st trace.
           cause_of W e s = (c, s1) \<and> capture (2 + skip) cs s1 = Inr st \<and>
           q = Some (next_addr s1) \<and>
           s' = s1\<lparr>resolved := resolved s1 @ st,
                   heap := (heap s1)(next_addr s1 \<mapsto>
                     \<lparr>Err = c, Stack = trace, Description = [], Title = [], stack = st,
                      frames = Some (map (NewStackFrame W) st)\<rparr>),
                   next_addr := Suc (next_addr s1)\<rparr>"
  using assms
  by (auto simp: Wrap_def thenP_def thenR_def stackFrames_eq alloc_def errorStack_def
      split: prod.splits sum.splits option.splits iface.splits error.splits)

lemma Errorf_result:
  assumes "Errorf W fm args cs s = Some (Inr (q, s'))"
  shows "\<exists>st trace.
           capture 3 cs s = Inr st \<and>
           q = Some (Suc (next_addr s)) \<and>
           s' = s\<lparr>resolved := resolved s @ st,
                   heap := (heap s)(Suc (next_addr s) \<mapsto>
                     \<lparr>Err = ErrorString (next_addr s) (fmt_Sprintf W fm args), Stack = trace,
                      Description = [], Title = [], stack = st,
                      frames = Some (map (NewStackFrame W) st)\<rparr>),
                   next_addr := Suc (Suc (next_addr s))\<rparr>"
proof -
  let ?c = "ErrorString (next_addr s) (fmt_Sprintf W fm args) :: 'a error"
  let ?s1 = "s\<lparr>next_addr := Suc (next_addr s)\<rparr>"
  have w: "Wrap W (ErrorValue ?c) 1 cs ?s1 = Some (Inr (q, s'))"
    using assms by (simp add: Errorf_def fmt_Errorf_def)
  have c: "cause_of W (ErrorValue ?c) ?s1 = (?c, ?s1)"
    by (simp add: cause_of_def)
  from Wrap_result[OF w] c show ?thesis
    by (auto simp: capture_def)
qed

text \<open>What a call of \<open>StackFrames\<close> on an object of the store returns and leaves.\<close>

lemma Error_StackFrames_eq:
  assumes "heap s a = Some w"
  shows "Error_StackFrames W (Some a) s =
     (case frames w of
        Some fs \<Rightarrow> Inr (Some fs, s)
      | None \<Rightarrow> Inr (Some (map (NewStackFrame W) (stack w)),
                 s\<lparr>resolved := resolved s @ stack w,
                   heap := (heap s)(a \<mapsto> w\<lparr>frames := Some (map (NewStackFrame W) (stack w))\<rparr>)\<rparr>))"
  using assms
  by (simp add: Error_StackFrames_def load_simps thenE_simps stackFrames_eq store_def
      split: option.splits)

text \<open>
  Claim C9. Let \<open>New\<close>, \<open>Custom\<close>, \<open>Errorf\<close>, or \<open>Wrap\<close> on a value that is not yet a
  wrapper, return a new wrapper. Then the addresses it captured are at most
  \<open>MaxStackDepth\<close> many, for the value the variable had when the constructor was called
  (it starts at 50); \<open>StackFrames\<close> then returns one frame per captured address, the
  \<open>i\<close>-th frame being the resolution of the \<open>i\<close>-th address; and the call leaves the
  captured addresses as they were.
\<close>

theorem captured_stack_bounded:
  assumes "New W e cs s = Some (Inr (Some a, s')) \<or>
           Custom W e d t cs s = Some (Inr (Some a, s')) \<or>
           (Wrap W e skip cs s = Some (Inr (Some a, s')) \<and> (\<forall>r. e \<noteq> ErrorValue (Ptr r))) \<or>
           Errorf W fm args cs s = Some (Inr (Some a, s'))"
  shows "MaxStackDepth (initial_state :: 'e Error state) = 50 \<and>
         (\<exists>w s2 w2.
            heap s' a = Some w \<and> int (length (stack w)) \<le> MaxStackDepth s \<and>
            Error_StackFrames W (Some a) s' = Inr (Some (map (NewStackFrame W) (stack w)), s2) \<and>
            heap s2 a = Some w2 \<and> stack w2 = stack w \<and>
            frames w2 = Some (map (NewStackFrame W) (stack w)))"
proof -
  have "\<exists>w. heap s' a = Some w \<and> int (length (stack w)) \<le> MaxStackDepth s \<and>
            (frames w = None \<or> frames w = Some (map (NewStackFrame W) (stack w)))"
    using assms
  proof (elim disjE conjE)
    assume "New W e cs s = Some (Inr (Some a, s'))"
    from New_result[OF this] show ?thesis
      by (auto dest!: capture_Inr cause_of_cases)
  next
    assume "Custom W e d t cs s = Some (Inr (Some a, s'))"
    from Custom_result[OF this] show ?thesis
      by (auto dest!: capture_Inr cause_of_cases)
  next
    assume "Wrap W e skip cs s = Some (Inr (Some a, s'))" "\<forall>r. e \<noteq> ErrorValue (Ptr r)"
    from Wrap_result[OF this] show ?thesis
      by (auto dest!: capture_Inr cause_of_cases)
  next
    assume "Errorf W fm args cs s = Some (Inr (Some a, s'))"
    from Errorf_result[OF this] show ?thesis
      by (auto dest!: capture_Inr)
  qed
  then obtain w where w: "heap s' a = Some w" "int (length (stack w)) \<le> MaxStackDepth s"
    "frames w = None \<or> frames w = Some (map (NewStackFrame W) (stack w))"
    by blast
  from w(3) have "\<exists>s2 w2. Error_StackFrames W (Some a) s' =
        Inr (Some (map (NewStackFrame W) (stack w)), s2) \<and>
      heap s2 a = Some w2 \<and> stack w2 = stack w \<and>
      frames w2 = Some (map (NewStackFrame W) (stack w))"
    using w(1) by (auto simp: Error_StackFrames_eq[OF w(1)])
  with w show ?thesis
    by (auto simp: initial_state_def)
qed

theorem captured_stack_bounded_witness:
  "\<exists>s'. New test_env (OtherValue ()) [1, 2, 3, 4] initial_state = Some (Inr (Some 1, s')) \<and>
     (\<exists>w s2 w2.
        heap s' 1 = Some w \<and>
        int (length (stack w)) \<le> MaxStackDepth (initial_state :: test_error Error state) \<and>
        Error_StackFrames test_env (Some 1) s' =
          Inr (Some (map (NewStackFrame test_env) (stack w)), s2) \<and>
        heap s2 1 = Some w2 \<and> stack w2 = stack w \<and>
        frames w2 = Some (map (NewStackFrame test_env) (stack w)))"
proof -
  have "\<exists>s'. New test_env (OtherValue ()) [1, 2, 3, 4] (initial_state :: test_error Error state) =
      Some (Inr (Some 1, s'))"
    by (simp add: New_def cause_of_def fmt_Errorf_def initial_state_def capture_def
        runtime_Callers_def stackFrames_eq thenP_simps thenR_simps error_Error.simps
        typeName_def reflect_TypeOf_String_def errorStack_def alloc_def)
  then obtain s' where
    n: "New test_env (OtherValue ()) [1, 2, 3, 4] (initial_state :: test_error Error state) =
      Some (Inr (Some 1, s'))" ..
  from captured_stack_bounded[of test_env "OtherValue ()" "[1, 2, 3, 4]" initial_state 1 s',
      OF disjI1, OF n]
  show ?thesis using n by blast
qed

section \<open>\<open>StackFrames\<close> called twice\<close>

text \<open>The later edition, whose method has a pointer receiver, keeps what the first call
  computed: a second call returns the same frames and changes nothing, the log of
  resolved addresses included.\<close>

lemma Error_StackFrames_memoizes:
  assumes "heap s a = Some w" and "Error_StackFrames W (Some a) s = Inr (fr, s1)"
  shows "Error_StackFrames W (Some a) s1 = Inr (fr, s1)"
proof (cases "frames w")
  case None
  have "s1 = s\<lparr>resolved := resolved s @ stack w,
      heap := (heap s)(a \<mapsto> w\<lparr>frames := Some (map (NewStackFrame W) (stack w))\<rparr>)\<rparr>"
    and "fr = Some (map (NewStackFrame W) (stack w))"
    using assms(2) by (auto simp: Error_StackFrames_eq[OF assms(1)] None)
  then show ?thesis
    by (simp add: Error_StackFrames_eq[where w = "w\<lparr>frames := Some (map (NewStackFrame W) (stack w))\<rparr>"])
next
  case (Some fs)
  have "s1 = s" and "fr = Some fs"
    using assms(2) by (auto simp: Error_StackFrames_eq[OF assms(1)] Some)
  then show ?thesis
    by (simp add: Error_StackFrames_eq[OF assms(1)] Some)
qed

text \<open>The earlier edition, whose method has a value receiver, never writes the store:
  while the stored \<open>frames\<close> are nil, every call resolves every address.\<close>

lemma wrappedError_StackFrames_eq:
  assumes "heap s a = Some w"
  shows "wrappedError_StackFrames W (Some a) s =
     (case frames1 w of
        Some fs \<Rightarrow> Inr (Some fs, s)
      | None \<Rightarrow> Inr (Some (map (NewStackFrame W) (stack1 w)),
                 s\<lparr>resolved := resolved s @ stack1 w\<rparr>))"
  using assms
  by (simp add: wrappedError_StackFrames_def load_simps thenE_simps stackFrames_eq
      split: option.splits)

text \<open>
  Claim C2, at a wrapper of the earlier edition. \<open>New\<close> is called where the call stack
  is \<open>[1, 2, 3, 4]\<close> and captures \<open>[3, 4]\<close>. The first call of \<open>StackFrames\<close> resolves 3
  and 4; the second call returns the same frames but resolves 3 and 4 again, and the
  wrapper in the store still has no frames: nothing was cached.
\<close>

theorem wrappedError_StackFrames_resolves_again:
  "\<exists>s1 fr s2 fr' s3.
     New1 test_env (OtherValue ()) [1, 2, 3, 4] initial_state = Inr (Some 1, s1) \<and>
     resolved s1 = [] \<and>
     wrappedError_StackFrames test_env (Some 1) s1 = Inr (fr, s2) \<and> resolved s2 = [3, 4] \<and>
     wrappedError_StackFrames test_env (Some 1) s2 = Inr (fr', s3) \<and> resolved s3 = [3, 4, 3, 4] \<and>
     fr' = fr \<and> heap s3 = heap s1 \<and> map_option frames1 (heap s3 1) = Some None"
  by (simp add: New1_def cause_of_def fmt_Errorf_def initial_state_def capture_def
      runtime_Callers_def thenE_simps alloc_def wrappedError_StackFrames_eq)

section \<open>Facts about chains of wrappers\<close>

lemma unwrapN_Suc_Ptr:
  "unwrapN (Suc n) h e = Some c \<Longrightarrow> \<exists>r w. e = Ptr r \<and> deref h r = Some w \<and> unwrapN n h (Err w) = Some c"
  by (cases e) (auto split: option.splits)

lemma unwrapN_nonPtr: "\<not> isPtr e \<Longrightarrow> unwrapN n h e = Some c \<Longrightarrow> n = 0 \<and> c = e"
  by (cases n; cases e) auto

lemma unwrapN_det:
  "unwrapN n h e = Some c \<Longrightarrow> \<not> isPtr c \<Longrightarrow> unwrapN m h e = Some d \<Longrightarrow> \<not> isPtr d \<Longrightarrow>
   n = m \<and> c = d"
proof (induction n arbitrary: e m)
  case 0
  then show ?case using unwrapN_nonPtr[of e m h d] by simp
next
  case (Suc n)
  from unwrapN_Suc_Ptr[OF Suc.prems(1)] obtain r w where
    e: "e = Ptr r" "deref h r = Some w" "unwrapN n h (Err w) = Some c" by blast
  show ?case
  proof (cases m)
    case 0
    then show ?thesis using Suc.prems e by auto
  next
    case (Suc m')
    then have "unwrapN m' h (Err w) = Some d" using Suc.prems(3) e by simp
    from Suc.IH[OF e(3) Suc.prems(2) this Suc.prems(4)] show ?thesis using Suc by simp
  qed
qed


section \<open>\<open>Is\<close>\<close>

lemma Is_same: "Is h e e = Some (Inr True)"
  by (subst Is.simps) simp

lemma Is_step_left:
  "Ptr r \<noteq> b \<Longrightarrow> deref h r = Some w \<Longrightarrow> Is h (Ptr r) b = Is h (Err w) b"
  by (subst Is.simps) simp

lemma Is_step_right:
  "\<not> isPtr a \<Longrightarrow> deref h r = Some w \<Longrightarrow> Is h a (Ptr r) = Is h a (Err w)"
  by (subst Is.simps, cases a) auto

lemma Is_base_base:
  "\<not> isPtr a \<Longrightarrow> \<not> isPtr b \<Longrightarrow> Is h a b = Some (Inr (a = b))"
  by (subst Is.simps, cases a; cases b) auto

lemma Is_right_chain:
  "\<not> isPtr a \<Longrightarrow> unwrapN m h b = Some cb \<Longrightarrow> \<not> isPtr cb \<Longrightarrow> Is h a b = Some (Inr (a = cb))"
proof (induction m arbitrary: b)
  case 0
  then show ?case by (simp add: Is_base_base)
next
  case (Suc m)
  from unwrapN_Suc_Ptr[OF Suc.prems(2)] obtain r w where
    b: "b = Ptr r" "deref h r = Some w" "unwrapN m h (Err w) = Some cb" by blast
  have "Is h a b = Is h a (Err w)"
    using Is_step_right[OF Suc.prems(1) b(2)] b(1) by simp
  also have "\<dots> = Some (Inr (a = cb))"
    by (rule Suc.IH[OF Suc.prems(1) b(3) Suc.prems(3)])
  finally show ?case .
qed

text \<open>On two chains that end in the causes \<open>ca\<close> and \<open>cb\<close>, \<open>Is\<close> returns, and returns
  whether the two causes are equal.\<close>

lemma Is_unwrapped:
  "unwrapN n h a = Some ca \<Longrightarrow> \<not> isPtr ca \<Longrightarrow> unwrapN m h b = Some cb \<Longrightarrow> \<not> isPtr cb \<Longrightarrow>
   Is h a b = Some (Inr (ca = cb))"
proof (induction n arbitrary: a)
  case 0
  then show ?case using Is_right_chain[of a m h b cb] by simp
next
  case (Suc n)
  from unwrapN_Suc_Ptr[OF Suc.prems(1)] obtain r w where
    a: "a = Ptr r" "deref h r = Some w" "unwrapN n h (Err w) = Some ca" by blast
  show ?case
  proof (cases "a = b")
    case True
    with unwrapN_det[OF Suc.prems(1,2), of m cb] Suc.prems have "ca = cb" by simp
    then show ?thesis using True by (simp add: Is_same)
  next
    case False
    then have "Is h a b = Is h (Err w) b"
      using Is_step_left[of r b h w] a by simp
    also have "\<dots> = Some (Inr (ca = cb))"
      by (rule Suc.IH[OF a(3) Suc.prems(2,3,4)])
    finally show ?thesis .
  qed
qed

text \<open>
  Claim C10. \<open>Is(nil, nil)\<close> returns true. For a wrapper whose chain ends, after any
  number of wrappers, in a cause that is neither nil nor a wrapper, \<open>Is\<close> of the wrapper
  and nil returns false, in either order of the operands.
\<close>

theorem Is_nil:
  assumes "unwrapN n h (Ptr (Some p)) = Some c" and "\<not> isPtr c" and "c \<noteq> Nil"
  shows "Is h Nil Nil = Some (Inr True) \<and>
         Is h (Ptr (Some p)) Nil = Some (Inr False) \<and>
         Is h Nil (Ptr (Some p)) = Some (Inr False)"
proof -
  have nil: "unwrapN 0 h Nil = Some Nil" "\<not> isPtr (Nil :: 'a error)" by simp_all
  have 1: "Is h (Ptr (Some p)) Nil = Some (Inr (c = Nil))"
    by (rule Is_unwrapped[OF assms(1,2) nil])
  have 2: "Is h Nil (Ptr (Some p)) = Some (Inr (Nil = c))"
    by (rule Is_unwrapped[OF nil assms(1,2)])
  show ?thesis using 1 2 assms(3) by (auto simp: Is_same)
qed

theorem Is_nil_witness:
  "Is two_layers Nil Nil = Some (Inr True) \<and>
   Is two_layers (Ptr (Some 1)) Nil = Some (Inr False) \<and>
   Is two_layers Nil (Ptr (Some 1)) = Some (Inr False)"
  using Is_nil[of 2 two_layers 1 "Foreign EOF"]
  by (simp add: two_layers_def wrapper_of_def deref_def numeral_2_eq_2)



subsection \<open>Layers made by \<open>New\<close> and \<open>Wrap\<close>\<close>

text \<open>
  A wrapper that \<open>New\<close> or \<open>Wrap\<close> makes of an error \<open>a\<close> is one layer over \<open>a\<close>, at a
  fresh address; \<open>Is\<close> of it and any \<open>b\<close> in the new store is \<open>Is\<close> of \<open>a\<close> and \<open>b\<close> in
  the old one. (The address the allocator hands out next is taken to be free.)
\<close>

lemma unwrapN_fresh:
  "unwrapN n h e = Some c \<Longrightarrow> h p = None \<Longrightarrow> unwrapN n (h(p \<mapsto> w)) e = Some c"
proof (induction n arbitrary: e)
  case 0
  then show ?case by simp
next
  case (Suc n)
  from unwrapN_Suc_Ptr[OF Suc.prems(1)] obtain r w2 where
    e: "e = Ptr r" "deref h r = Some w2" "unwrapN n h (Err w2) = Some c" by blast
  have "deref (h(p \<mapsto> w)) r = Some w2"
    using e(2) Suc.prems(2) by (cases r) (auto simp: deref_def)
  moreover have "unwrapN n (h(p \<mapsto> w)) (Err w2) = Some c"
    using Suc.IH[OF e(3) Suc.prems(2)] by (simp add: fun_upd_def)
  ultimately show ?case using e(1) by (simp add: fun_upd_def)
qed

lemma Is_new_layer:
  assumes "h p = None" and "Err w = a"
      and "unwrapN n h a = Some ca" and "\<not> isPtr ca"
      and "unwrapN m h b = Some cb" and "\<not> isPtr cb"
  shows "Is (h(p \<mapsto> w)) (Ptr (Some p)) b = Is h a b \<and>
         Is (h(p \<mapsto> w)) b (Ptr (Some p)) = Is h b a"
proof -
  let ?h = "h(p \<mapsto> w)"
  have a: "unwrapN (Suc n) ?h (Ptr (Some p)) = Some ca"
    using unwrapN_fresh[OF assms(3,1), of w] assms(2) by (simp add: deref_def)
  have b: "unwrapN m ?h b = Some cb"
    by (rule unwrapN_fresh[OF assms(5,1)])
  show ?thesis
    using Is_unwrapped[OF a assms(4) b assms(6)] Is_unwrapped[OF b assms(6) a assms(4)]
      Is_unwrapped[OF assms(3,4,5,6)] Is_unwrapped[OF assms(5,6,3,4)]
    by simp
qed

lemma Is_after_New:
  assumes "New W (ErrorValue a) cs s = Some (Inr (q, s'))" and "a \<noteq> Nil"
      and "heap s (next_addr s) = None"
      and "unwrapN n (heap s) a = Some ca" and "\<not> isPtr ca"
      and "unwrapN m (heap s) b = Some cb" and "\<not> isPtr cb"
  shows "unwrapN 1 (heap s') (Ptr q) = Some a \<and>
         Is (heap s') (Ptr q) b = Is (heap s) a b \<and>
         Is (heap s') b (Ptr q) = Is (heap s) b a"
proof -
  have c: "cause_of W (ErrorValue a) s = (a, s)"
    using assms(2) by (simp add: cause_of_def)
  from New_result[OF assms(1)] c obtain w where
    w: "q = Some (next_addr s)" "heap s' = (heap s)(next_addr s \<mapsto> w)" "Err w = a"
    by auto
  from Is_new_layer[OF assms(3) w(3) assms(4-7)] w show ?thesis
    by (simp add: deref_def)
qed

lemma Is_after_Wrap:
  assumes "Wrap W (ErrorValue a) skip cs s = Some (Inr (q, s'))" and "a \<noteq> Nil"
      and "heap s (next_addr s) = None"
      and "unwrapN n (heap s) a = Some ca" and "\<not> isPtr ca"
      and "unwrapN m (heap s) b = Some cb" and "\<not> isPtr cb"
  shows "Is (heap s') (Ptr q) b = Is (heap s) a b \<and>
         Is (heap s') b (Ptr q) = Is (heap s) b a"
proof (cases "isPtr a")
  case True
  then obtain r where "a = Ptr r" by (cases a) auto
  then show ?thesis using assms(1) by (simp add: Wrap_def)
next
  case False
  then have np: "\<forall>r. ErrorValue a \<noteq> ErrorValue (Ptr r)" by auto
  have c: "cause_of W (ErrorValue a) s = (a, s)"
    using assms(2) by (simp add: cause_of_def)
  from Wrap_result[OF assms(1) np] c obtain w where
    w: "q = Some (next_addr s)" "heap s' = (heap s)(next_addr s \<mapsto> w)" "Err w = a"
    by auto
  from Is_new_layer[OF assms(3) w(3) assms(4-7)] w show ?thesis
    by simp
qed

text \<open>The nil interface is never a cause: \<open>New(nil)\<close> wraps the error that formatting
  nil gives, and \<open>Is\<close> tells that wrapper from nil.\<close>

lemma New_of_nil_is_not_nil:
  assumes "New W (ErrorValue Nil) cs s = Some (Inr (q, s'))"
  shows "Is (heap s') (Ptr q) Nil = Some (Inr False)"
proof -
  from New_result[OF assms] obtain w c s1 where
    w: "q = Some (next_addr s1)" "heap s' = (heap s1)(next_addr s1 \<mapsto> w)" "Err w = c"
       "cause_of W (ErrorValue Nil) s = (c, s1)"
    by auto
  then obtain b t where "c = ErrorString b t"
    by (cases c) (auto simp: cause_of_def fmt_Errorf_def)
  then have "unwrapN 1 (heap s') (Ptr q) = Some (ErrorString b t)"
    using w by (simp add: deref_def)
  from Is_unwrapped[OF this _ , of 0 Nil Nil] show ?thesis by simp
qed

section \<open>\<open>Is\<close> with an equality hook\<close>






text \<open>The eight checks of \<open>TestIs113\<close>, with \<open>New(x)\<close> read as the wrapper of \<open>x\<close> in the
  store: the model passes the test.\<close>

lemma TestIs113:
  "Is113 test_error_Is test_heap custErr shouldMatch = Some (Inr True)"
  "Is113 test_error_Is test_heap custErr shouldNotMatch = Some (Inr False)"
  "Is113 test_error_Is test_heap custErr (Ptr (Some 1)) = Some (Inr True)"
  "Is113 test_error_Is test_heap custErr (Ptr (Some 2)) = Some (Inr False)"
  "Is113 test_error_Is test_heap (Ptr (Some 0)) shouldMatch = Some (Inr True)"
  "Is113 test_error_Is test_heap (Ptr (Some 0)) shouldNotMatch = Some (Inr False)"
  "Is113 test_error_Is test_heap (Ptr (Some 0)) (Ptr (Some 1)) = Some (Inr True)"
  "Is113 test_error_Is test_heap (Ptr (Some 0)) (Ptr (Some 2)) = Some (Inr False)"
  by (simp_all add: Is113.simps test_heap_def wrapper_of_def custErr_def shouldMatch_def
      shouldNotMatch_def deref_def matches_def test_error_Is_def)



section \<open>The message of an error\<close>

text \<open>One step of \<open>Error\<close> through a wrapper, in each edition.\<close>

lemma error_Error_Ptr:
  "h a = Some w \<Longrightarrow> error_Error W h (Ptr (Some a)) = error_Error W h (Err w)"
  by (subst error_Error.simps) (simp add: deref_def)

lemma error_Error_Nil: "error_Error W h Nil = Some (Inl NilDereference)"
  by (subst error_Error.simps) simp

lemma error_Error1_Ptr:
  "h a = Some w \<Longrightarrow>
   error_Error1 W h (Ptr (Some a)) =
     Option.bind (error_Error1 W h (err w))
       (\<lambda>y. Some (case y of
            Inl p \<Rightarrow> Inl p
          | Inr msg \<Rightarrow> Inr (if prefix w \<noteq> [] then prefix w @ '': '' @ msg else msg)))"
  by (subst error_Error1.simps) (simp add: deref_def)

lemma error_Error1_Nil: "error_Error1 W h Nil = Some (Inl NilDereference)"
  by (subst error_Error1.simps) simp

text \<open>\<open>Error\<close> reads only the field \<open>Err\<close> of the objects it passes: on two stores
  with the same cause links it behaves the same, also in panicking or not returning.\<close>

lemma deref_links:
  assumes "\<forall>b. map_option Err (h' b) = map_option Err (h b)"
  shows "map_option Err (deref h' r) = map_option Err (deref h r)"
  using assms by (cases r) (simp_all add: deref_def)

lemma deref_links_None:
  assumes "\<forall>b. map_option Err (h' b) = map_option Err (h b)" and "deref h r = None"
  shows "deref h' r = None"
  using deref_links[OF assms(1), of r] assms(2) by simp

lemma deref_links_Some:
  assumes "\<forall>b. map_option Err (h' b) = map_option Err (h b)" and "deref h r = Some w"
  shows "\<exists>w'. deref h' r = Some w' \<and> Err w' = Err w"
  using deref_links[OF assms(1), of r] assms(2) by (cases "deref h' r") simp_all

lemma error_Error_links_Some:
  assumes "error_Error W h e = Some y" and "\<forall>b. map_option Err (h' b) = map_option Err (h b)"
  shows "error_Error W h' e = Some y"
  using assms
proof (induction W h e y rule: error_Error.raw_induct[rotated 1, consumes 1])
  case (1 rec W h e y)
  note body = "1.hyps" and links = "1.prems"
  show ?case
  proof (cases e)
    case (Ptr r)
    show ?thesis
    proof (cases "deref h r")
      case None
      from deref_links_None[OF links None] show ?thesis
        using body None Ptr by (subst error_Error.simps) simp
    next
      case (Some w)
      from deref_links_Some[OF links Some] obtain w' where
        w': "deref h' r = Some w'" "Err w' = Err w" by blast
      have "rec W h (Err w) = Some y" using body Ptr Some by simp
      then have "error_Error W h' (Err w) = Some y"
        using links by (rule "1.IH")
      then show ?thesis
        using Ptr w' by (subst error_Error.simps) simp
    qed
  qed (use body in \<open>simp_all add: error_Error.simps\<close>)
qed

lemma error_Error_links:
  assumes "\<forall>b. map_option Err (h' b) = map_option Err (h b)"
  shows "error_Error W h' e = error_Error W h e"
proof (cases "error_Error W h e")
  case None
  show ?thesis
  proof (cases "error_Error W h' e")
    case (Some y)
    from error_Error_links_Some[OF Some, of h] assms have "error_Error W h e = Some y" by simp
    with None show ?thesis by simp
  qed (simp add: None)
next
  case (Some y)
  from error_Error_links_Some[OF Some assms] show ?thesis using Some by simp
qed

section \<open>\<open>ErrorStack\<close>\<close>

lemma typeName_total: "e \<noteq> Nil \<Longrightarrow> \<exists>t. typeName W e = Inr t"
  by (cases e) (simp_all add: typeName_def reflect_TypeOf_String_def)

lemma Error_StackTrace_eq:
  assumes "heap s a = Some w"
  shows "Error_StackTrace W (Some a) s =
     (case frames w of
        Some fs \<Rightarrow> Inr (stack_bytes (Some fs), s)
      | None \<Rightarrow> Inr (stack_bytes (Some (map (NewStackFrame W) (stack w))),
                 s\<lparr>resolved := resolved s @ stack w,
                   heap := (heap s)(a \<mapsto> w\<lparr>frames := Some (map (NewStackFrame W) (stack w))\<rparr>)\<rparr>))"
  using assms
  by (simp add: Error_StackTrace_def load_simps thenE_simps Error_StackFrames_eq store_def
      split: option.splits)

lemma stack_bytes_nonempty: "fs \<noteq> [] \<Longrightarrow> stack_bytes (Some fs) \<noteq> []"
  by (cases fs) (simp_all add: stack_bytes_Some StackFrame_String_nonempty)

lemma Error_ErrorStack_eq:
  assumes "heap s a = Some w" and "error_Error W (heap s) (Ptr (Some a)) = Some (Inr m)"
  shows "\<exists>t trace s'.
           Error_TypeName W (heap s) (Some a) = Inr t \<and>
           Error_StackTrace W (Some a) s = Inr (trace, s') \<and>
           Error_ErrorStack W (Some a) s = Some (Inr (t @ '' '' @ m @ [CHR 0x0A] @ trace, s')) \<and>
           (stack w \<noteq> [] \<and> (\<forall>fs. frames w = Some fs \<longrightarrow> length fs = length (stack w))
              \<longrightarrow> trace \<noteq> [])"
proof -
  have "Err w \<noteq> Nil"
    using assms by (auto simp: error_Error_Ptr error_Error_Nil)
  from typeName_total[OF this] obtain t where t: "typeName W (Err w) = Inr t" by blast
  then have tn: "Error_TypeName W (heap s) (Some a) = Inr t"
    using assms(1) by (simp add: Error_TypeName_def load_simps thenE_simps)
  obtain trace s' where st: "Error_StackTrace W (Some a) s = Inr (trace, s')"
    using Error_StackTrace_eq[OF assms(1), of W] by (cases "frames w") auto
  have links: "\<forall>b. map_option Err (heap s' b) = map_option Err (heap s b)"
    using st assms(1) by (cases "frames w") (auto simp: Error_StackTrace_eq[OF assms(1)])
  have m: "error_Error W (heap s') (Ptr (Some a)) = Some (Inr m)"
    by (simp add: error_Error_links[OF links] assms(2))
  have es: "Error_ErrorStack W (Some a) s = Some (Inr (t @ '' '' @ m @ [CHR 0x0A] @ trace, s'))"
    by (simp add: Error_ErrorStack_def tn st thenP_simps errorStack_def m thenR_simps)
  have ne: "trace \<noteq> []"
    if "stack w \<noteq> []" and "\<forall>fs. frames w = Some fs \<longrightarrow> length fs = length (stack w)"
  proof (cases "frames w")
    case None
    then have "trace = stack_bytes (Some (map (NewStackFrame W) (stack w)))"
      using st by (simp add: Error_StackTrace_eq[OF assms(1)])
    then show ?thesis using that(1) by (simp add: stack_bytes_nonempty)
  next
    case (Some fs)
    then have "trace = stack_bytes (Some fs)"
      using st by (simp add: Error_StackTrace_eq[OF assms(1)])
    moreover have "fs \<noteq> []" using that Some by auto
    ultimately show ?thesis by (simp add: stack_bytes_nonempty)
  qed
  show ?thesis using tn st es ne by blast
qed

lemma wrappedError_ErrorStack_eq:
  assumes "heap s a = Some w" and "error_Error1 W (heap s) (Ptr (Some a)) = Some (Inr m)"
  shows "\<exists>t trace s'.
           wrappedError_TypeName W (heap s) (Some a) = Inr t \<and>
           wrappedError_Stack W (Some a) s = Inr (trace, s') \<and>
           wrappedError_ErrorStack W (Some a) s = Some (Inr (t @ '' '' @ m @ [CHR 0x0A] @ trace, s')) \<and>
           (stack1 w \<noteq> [] \<and> (\<forall>fs. frames1 w = Some fs \<longrightarrow> length fs = length (stack1 w))
              \<longrightarrow> trace \<noteq> [])"
proof -
  have "err w \<noteq> Nil"
    using assms by (auto simp: error_Error1_Ptr error_Error1_Nil)
  then obtain t where tn: "wrappedError_TypeName W (heap s) (Some a) = Inr t"
    using assms(1)
    by (cases "err w")
       (simp_all add: wrappedError_TypeName_def load_simps thenE_simps reflect_TypeOf_String_def)
  obtain fr s' where sf: "wrappedError_StackFrames W (Some a) s = Inr (Some fr, s')"
    and fr: "fr = (case frames1 w of Some fs \<Rightarrow> fs | None \<Rightarrow> map (NewStackFrame W) (stack1 w))"
    using wrappedError_StackFrames_eq[OF assms(1), of W] by (cases "frames1 w") auto
  have st: "wrappedError_Stack W (Some a) s = Inr (stack_bytes (Some fr), s')"
    by (simp add: wrappedError_Stack_def sf thenE_simps)
  have es: "wrappedError_ErrorStack W (Some a) s =
      Some (Inr (t @ '' '' @ m @ [CHR 0x0A] @ stack_bytes (Some fr), s'))"
    by (simp add: wrappedError_ErrorStack_def tn st thenP_simps assms(2) thenR_simps)
  have ne: "stack_bytes (Some fr) \<noteq> []"
    if "stack1 w \<noteq> []" and "\<forall>fs. frames1 w = Some fs \<longrightarrow> length fs = length (stack1 w)"
  proof -
    have "fr \<noteq> []" using that fr by (cases "frames1 w") auto
    then show ?thesis by (rule stack_bytes_nonempty)
  qed
  show ?thesis using tn st es ne by blast
qed

text \<open>
  Claim C7. For a wrapper whose \<open>Error\<close> returns \<open>m\<close>, \<open>TypeName\<close> returns some \<open>t\<close>, the
  trace method (\<open>StackTrace\<close> in the later edition, \<open>Stack\<close> in the earlier) returns some
  \<open>trace\<close>, and \<open>ErrorStack\<close> returns exactly \<open>t\<close>, a space, \<open>m\<close>, a newline and
  \<open>trace\<close>. When the wrapper captured at least one address (and its cached frames, if
  any, are one per address), \<open>trace\<close> is not empty. The last part rests on the frame
  formatter as the spec describes it.
\<close>

theorem ErrorStack_is_concatenation:
  assumes "heap s a = Some w" and "error_Error W (heap s) (Ptr (Some a)) = Some (Inr m)"
      and "heap s1 a1 = Some w1" and "error_Error1 W (heap s1) (Ptr (Some a1)) = Some (Inr m1)"
  shows "(\<exists>t trace s'.
           Error_TypeName W (heap s) (Some a) = Inr t \<and>
           Error_StackTrace W (Some a) s = Inr (trace, s') \<and>
           Error_ErrorStack W (Some a) s = Some (Inr (t @ '' '' @ m @ [CHR 0x0A] @ trace, s')) \<and>
           (stack w \<noteq> [] \<and> (\<forall>fs. frames w = Some fs \<longrightarrow> length fs = length (stack w))
              \<longrightarrow> trace \<noteq> [])) \<and>
         (\<exists>t trace s'.
           wrappedError_TypeName W (heap s1) (Some a1) = Inr t \<and>
           wrappedError_Stack W (Some a1) s1 = Inr (trace, s') \<and>
           wrappedError_ErrorStack W (Some a1) s1 =
             Some (Inr (t @ '' '' @ m1 @ [CHR 0x0A] @ trace, s')) \<and>
           (stack1 w1 \<noteq> [] \<and> (\<forall>fs. frames1 w1 = Some fs \<longrightarrow> length fs = length (stack1 w1))
              \<longrightarrow> trace \<noteq> []))"
  using Error_ErrorStack_eq[OF assms(1,2)] wrappedError_ErrorStack_eq[OF assms(3,4)]
  by blast

theorem ErrorStack_is_concatenation_witness:
  "(\<exists>trace s'.
      Error_ErrorStack test_env (Some 0) one_wrapper =
        Some (Inr (''*errors.errorString'' @ '' '' @ ''EOF'' @ [CHR 0x0A] @ trace, s')) \<and>
      trace \<noteq> []) \<and>
   (\<exists>trace s'.
      wrappedError_ErrorStack test_env (Some 0) one_wrapper1 =
        Some (Inr (''*errors.errorString'' @ '' '' @ ''EOF'' @ [CHR 0x0A] @ trace, s')) \<and>
      trace \<noteq> [])"
proof -
  have 1: "heap one_wrapper 0 = Some eof_wrapper"
    by (simp add: one_wrapper_def)
  have 2: "error_Error test_env (heap one_wrapper) (Ptr (Some 0)) = Some (Inr ''EOF'')"
    by (simp add: error_Error.simps deref_def 1 test_env_def eof_wrapper_def)
  have 3: "heap one_wrapper1 0 = Some eof_wrapper1"
    by (simp add: one_wrapper1_def)
  have 4: "error_Error1 test_env (heap one_wrapper1) (Ptr (Some 0)) = Some (Inr ''EOF'')"
    by (simp add: error_Error1.simps deref_def 3 test_env_def eof_wrapper1_def)
  have 5: "Error_TypeName test_env (heap one_wrapper) (Some 0) = Inr ''*errors.errorString''"
    by (simp add: Error_TypeName_def load_simps 1 thenE_simps typeName_def reflect_TypeOf_String_def
        test_env_def eof_wrapper_def)
  have 6: "wrappedError_TypeName test_env (heap one_wrapper1) (Some 0) = Inr ''*errors.errorString''"
    by (simp add: wrappedError_TypeName_def load_simps 3 thenE_simps reflect_TypeOf_String_def
        test_env_def eof_wrapper1_def)
  from ErrorStack_is_concatenation[where w = eof_wrapper and ?w1.0 = eof_wrapper1, OF 1 2 3 4]
  show ?thesis
    unfolding 5 6 by (simp add: eof_wrapper_def eof_wrapper1_def) blast
qed

section \<open>\<open>New\<close> on an error whose \<open>Error\<close> method panics\<close>

text \<open>
  Claim C6, at the value \<open>shouldMatch\<close> of \<open>TestIs113\<close>: an \<open>errorWithCustomIs\<close> with
  no cause, whose \<open>Error\<close> method panics. The test passes it to \<open>New\<close> and goes on to use
  the result. \<open>New\<close> of the later edition calls \<open>err.Error()\<close> while it builds the struct
  (for \<open>Title\<close>, \<open>Stack\<close> and \<open>Description\<close>), so it panics and returns no wrapper,
  whatever the call stack.
\<close>

theorem New_fails_on_the_tests_error:
  "New test_env (ErrorValue (Foreign (errorWithCustomIs ''TestForFun'' None))) cs initial_state =
     Some (Inl NilDereference)"
  by (simp add: New_def cause_of_def capture_def initial_state_def stackFrames_eq thenP_simps
      error_Error.simps test_env_def thenR_simps)

text \<open>\<open>New\<close> of the earlier edition calls no method of the cause: it returns a wrapper
  for this value, and for every value as long as \<open>MaxStackDepth\<close> is not negative.\<close>

lemma New1_accepts_the_tests_error:
  "\<exists>s'. New1 test_env (ErrorValue (Foreign (errorWithCustomIs ''TestForFun'' None))) cs initial_state =
     Inr (Some 0, s')"
  by (simp add: New1_def cause_of_def capture_def initial_state_def thenE_simps alloc_def)

lemma New1_total:
  assumes "0 \<le> MaxStackDepth s"
  shows "\<exists>a s' w. New1 W e cs s = Inr (Some a, s') \<and> heap s' a = Some w \<and> err w \<noteq> Nil \<and>
           prefix w = [] \<and> err w = fst (cause_of W e s)"
proof -
  obtain c s1 where c: "cause_of W e s = (c, s1)" by (cases "cause_of W e s")
  from cause_of_cases[OF c] have "MaxStackDepth s1 = MaxStackDepth s" "c \<noteq> Nil" by auto
  then show ?thesis
    using assms c by (simp add: New1_def capture_def thenE_simps alloc_def)
qed

text \<open>Where the cause's \<open>Error\<close> returns, so does \<open>New\<close> of the later edition, and the
  wrapper's message is the cause's; a value that is not an error, and the nil interface,
  are formatted with \<open>%v\<close>. \<open>New\<close> of the earlier edition gives the same messages.\<close>

lemma error_Error_fresh:
  assumes "error_Error W h e = Some y" and "y = Inr m" and "h a = None"
  shows "error_Error W (h(a \<mapsto> w)) e = Some y"
  using assms
proof (induction W h e y arbitrary: m rule: error_Error.raw_induct[rotated 1, consumes 1])
  case (1 rec W h e y)
  show ?case
  proof (cases e)
    case (Ptr r)
    show ?thesis
    proof (cases "deref h r")
      case None
      then show ?thesis using "1.hyps" "1.prems" Ptr by simp
    next
      case (Some w2)
      then have d: "deref (h(a \<mapsto> w)) r = Some w2"
        using "1.prems"(2) by (cases r) (auto simp: deref_def)
      have "rec W h (Err w2) = Some y" using "1.hyps" Ptr Some by simp
      from "1.IH"[OF this "1.prems"]
      have "error_Error W (h(a \<mapsto> w)) (Err w2) = Some y" by (simp add: fun_upd_def)
      then show ?thesis
        using Ptr d by (subst error_Error.simps) simp
    qed
  qed (use "1.hyps" in \<open>simp_all add: error_Error.simps\<close>)
qed

lemma New_of_error:
  assumes "error_Error W (heap s) v = Some (Inr m)" and "heap s (next_addr s) = None"
      and "0 \<le> MaxStackDepth s"
  shows "\<exists>a s' w. New W (ErrorValue v) cs s = Some (Inr (Some a, s')) \<and>
           heap s' a = Some w \<and> Err w = v \<and> v \<noteq> Nil \<and>
           error_Error W (heap s') (Ptr (Some a)) = Some (Inr m)"
proof -
  have nn: "v \<noteq> Nil" using assms(1) by (auto simp: error_Error_Nil)
  then obtain t where t: "typeName W v = Inr t" using typeName_total by blast
  let ?st = "runtime_Callers 2 (nat (MaxStackDepth s)) cs"
  let ?w = "\<lparr>Err = v, Stack = t @ '' '' @ m @ [CHR 0x0A] @ stack_bytes (Some (map (NewStackFrame W) ?st)),
             Description = m, Title = m, stack = ?st, frames = Some (map (NewStackFrame W) ?st)\<rparr>"
  let ?s' = "s\<lparr>resolved := resolved s @ ?st, heap := (heap s)(next_addr s \<mapsto> ?w),
               next_addr := Suc (next_addr s)\<rparr>"
  have n: "New W (ErrorValue v) cs s = Some (Inr (Some (next_addr s), ?s'))"
    using nn assms(1,3) t
    by (simp add: New_def cause_of_def capture_def stackFrames_eq thenP_simps thenR_simps
        errorStack_def alloc_def)
  have "error_Error W (heap ?s') v = Some (Inr m)"
    using error_Error_fresh[OF assms(1) refl assms(2), of ?w] by simp
  then have "error_Error W (heap ?s') (Ptr (Some (next_addr s))) = Some (Inr m)"
    by (subst error_Error.simps) (simp add: deref_def)
  with n nn show ?thesis by simp
qed

lemma New_of_other:
  assumes "e = OtherValue x \<or> e = ErrorValue Nil" and "0 \<le> MaxStackDepth s"
  shows "\<exists>a s' w b. New W e cs s = Some (Inr (Some a, s')) \<and>
           heap s' a = Some w \<and> Err w = ErrorString b (fmt_Sprintf W ''%v'' [e]) \<and>
           error_Error W (heap s') (Ptr (Some a)) = Some (Inr (fmt_Sprintf W ''%v'' [e]))"
  using assms
  by (auto simp: New_def cause_of_def fmt_Errorf_def capture_def stackFrames_eq thenP_simps
      thenR_simps errorStack_def alloc_def error_Error.simps typeName_def
      reflect_TypeOf_String_def deref_def)

lemma New1_message:
  assumes "0 \<le> MaxStackDepth s"
  shows "\<exists>a s' w. New1 W e cs s = Inr (Some a, s') \<and> heap s' a = Some w \<and> prefix w = [] \<and>
           err w \<noteq> Nil \<and> error_Error1 W (heap s') (Ptr (Some a)) = error_Error1 W (heap s') (err w) \<and>
           (\<forall>x. e = OtherValue x \<or> e = ErrorValue Nil \<longrightarrow>
              error_Error1 W (heap s') (Ptr (Some a)) = Some (Inr (fmt_Sprintf W ''%v'' [e])))"
proof -
  from New1_total[OF assms, of W e cs] obtain a s' w where
    n: "New1 W e cs s = Inr (Some a, s')" "heap s' a = Some w" "err w \<noteq> Nil" "prefix w = []"
      "err w = fst (cause_of W e s)" by blast
  have 1: "error_Error1 W (heap s') (Ptr (Some a)) = error_Error1 W (heap s') (err w)"
    using n(2,4) by (cases "error_Error1 W (heap s') (err w)")
      (auto simp: error_Error1_Ptr split: sum.splits)
  have 2: "error_Error1 W (heap s') (err w) = Some (Inr (fmt_Sprintf W ''%v'' [e]))"
    if "e = OtherValue x \<or> e = ErrorValue Nil" for x
    using that n(5) by (auto simp: cause_of_def fmt_Errorf_def error_Error1.simps)
  show ?thesis using n 1 2 by auto
qed

section \<open>\<open>WrapPrefix\<close>\<close>

text \<open>Chains in the store of the earlier edition: the facts shown for \<open>unwrapN\<close>.\<close>

lemma unwrapN1_Suc_Ptr:
  "unwrapN1 (Suc n) h e = Some c \<Longrightarrow>
   \<exists>r w. e = Ptr r \<and> deref h r = Some w \<and> unwrapN1 n h (err w) = Some c"
  by (cases e) (auto split: option.splits)

lemma unwrapN1_nonPtr: "\<not> isPtr e \<Longrightarrow> unwrapN1 n h e = Some c \<Longrightarrow> n = 0 \<and> c = e"
  by (cases n; cases e) auto

lemma unwrapN1_det:
  "unwrapN1 n h e = Some c \<Longrightarrow> \<not> isPtr c \<Longrightarrow> unwrapN1 m h e = Some d \<Longrightarrow> \<not> isPtr d \<Longrightarrow>
   n = m \<and> c = d"
proof (induction n arbitrary: e m)
  case 0
  then show ?case using unwrapN1_nonPtr[of e m h d] by simp
next
  case (Suc n)
  from unwrapN1_Suc_Ptr[OF Suc.prems(1)] obtain r w where
    e: "e = Ptr r" "deref h r = Some w" "unwrapN1 n h (err w) = Some c" by blast
  show ?case
  proof (cases m)
    case 0
    then show ?thesis using Suc.prems e by auto
  next
    case (Suc m')
    then have "unwrapN1 m' h (err w) = Some d" using Suc.prems(3) e by simp
    from Suc.IH[OF e(3) Suc.prems(2) this Suc.prems(4)] show ?thesis using Suc by simp
  qed
qed

lemma unwrapN1_add:
  "unwrapN1 i h e' = Some e \<Longrightarrow> unwrapN1 n h e = Some c \<Longrightarrow> unwrapN1 (i + n) h e' = Some c"
proof (induction i arbitrary: e')
  case 0
  then show ?case by simp
next
  case (Suc i)
  from unwrapN1_Suc_Ptr[OF Suc.prems(1)] obtain r w where
    e: "e' = Ptr r" "deref h r = Some w" "unwrapN1 i h (err w) = Some e" by blast
  from Suc.IH[OF e(3) Suc.prems(2)] show ?case using e by simp
qed

lemma unwrapN1_no_cycle:
  assumes "unwrapN1 n h e = Some c" and "\<not> isPtr c" and "unwrapN1 k h e = Some e"
  shows "k = 0"
proof -
  from unwrapN1_add[OF assms(3,1)] have "unwrapN1 (k + n) h e = Some c" .
  from unwrapN1_det[OF this assms(2,1,2)] show ?thesis by simp
qed

text \<open>A call of \<open>Error\<close> that returns a message walked a chain of wrappers down to a cause
  that is not a wrapper; such a chain passes no wrapper twice, so a change to one
  wrapper does not change the message of its cause.\<close>

lemma error_Error1_chain:
  assumes "error_Error1 W h e = Some y" and "y = Inr m"
  shows "\<exists>n c. unwrapN1 n h e = Some c \<and> \<not> isPtr c"
  using assms
proof (induction W h e y arbitrary: m rule: error_Error1.raw_induct[rotated 1, consumes 1])
  case (1 rec W h e y)
  show ?case
  proof (cases e)
    case (Ptr r)
    show ?thesis
    proof (cases "deref h r")
      case None
      then show ?thesis using "1.hyps" "1.prems" Ptr by simp
    next
      case (Some w)
      with "1.hyps" Ptr "1.prems" obtain y' where y': "rec W h (err w) = Some y'"
        by (auto simp: bind_eq_Some_conv)
      with "1.hyps" Ptr Some "1.prems" obtain m' where "y' = Inr m'"
        by (cases y') auto
      from "1.IH"[OF y' this] obtain n c where "unwrapN1 n h (err w) = Some c" "\<not> isPtr c"
        by blast
      then have "unwrapN1 (Suc n) h e = Some c" using Ptr Some by simp
      then show ?thesis using \<open>\<not> isPtr c\<close> by blast
    qed
  next
    case Nil
    have "unwrapN1 0 h e = Some e" by simp
    then show ?thesis using Nil by (metis isPtr.simps(2))
  next
    case (ErrorString a t)
    have "unwrapN1 0 h e = Some e" by simp
    then show ?thesis using ErrorString by (metis isPtr.simps(3))
  next
    case (UncaughtPanic x)
    have "unwrapN1 0 h e = Some e" by simp
    then show ?thesis using UncaughtPanic by (metis isPtr.simps(4))
  next
    case (Foreign x)
    have "unwrapN1 0 h e = Some e" by simp
    then show ?thesis using Foreign by (metis isPtr.simps(5))
  qed
qed

lemma error_Error1_nonPtr:
  "\<not> isPtr e \<Longrightarrow> error_Error1 W h' e = error_Error1 W h e"
  by (cases e) (simp_all add: error_Error1.simps)

lemma error_Error1_update:
  assumes "unwrapN1 n h e = Some c" and "\<not> isPtr c"
      and "\<forall>k\<le>n. unwrapN1 k h e \<noteq> Some (Ptr (Some a))"
  shows "error_Error1 W (h(a \<mapsto> w')) e = error_Error1 W h e"
  using assms
proof (induction n arbitrary: e)
  case 0
  then show ?case by (simp add: error_Error1_nonPtr)
next
  case (Suc n)
  from unwrapN1_Suc_Ptr[OF Suc.prems(1)] obtain r w where
    e: "e = Ptr r" "deref h r = Some w" "unwrapN1 n h (err w) = Some c" by blast
  from Suc.prems(3)[rule_format, of 0] e have "r \<noteq> Some a" by auto
  then have d: "deref (h(a \<mapsto> w')) r = Some w"
    using e(2) by (cases r) (auto simp: deref_def)
  have "\<forall>k\<le>n. unwrapN1 k h (err w) \<noteq> Some (Ptr (Some a))"
  proof (intro allI impI)
    fix k assume "k \<le> n"
    then have "unwrapN1 (Suc k) h e \<noteq> Some (Ptr (Some a))"
      using Suc.prems(3) by auto
    then show "unwrapN1 k h (err w) \<noteq> Some (Ptr (Some a))" using e by simp
  qed
  from Suc.IH[OF e(3) Suc.prems(2) this]
  have "error_Error1 W (h(a \<mapsto> w')) (err w) = error_Error1 W h (err w)" .
  then show ?case
    unfolding e(1)
    by (subst error_Error1.simps, subst (2) error_Error1.simps) (simp add: d e(2))
qed

lemma error_Error1_cause_update:
  assumes "error_Error1 W h (Ptr (Some a)) = Some (Inr m)" and "h a = Some w"
  shows "error_Error1 W (h(a \<mapsto> w')) (err w) = error_Error1 W h (err w)"
proof -
  from error_Error1_chain[OF assms(1)] obtain n c where
    n: "unwrapN1 n h (Ptr (Some a)) = Some c" "\<not> isPtr c" by blast
  then obtain n' where n': "n = Suc n'" by (cases n) auto
  then have c: "unwrapN1 n' h (err w) = Some c"
    using n(1) assms(2) by (simp add: deref_def)
  have "\<forall>k\<le>n'. unwrapN1 k h (err w) \<noteq> Some (Ptr (Some a))"
  proof (intro allI impI notI)
    fix k assume "unwrapN1 k h (err w) = Some (Ptr (Some a))"
    then have "unwrapN1 (Suc k) h (Ptr (Some a)) = Some (Ptr (Some a))"
      using assms(2) by (simp add: deref_def)
    from unwrapN1_no_cycle[OF n this] show False by simp
  qed
  from error_Error1_update[OF c n(2) this] show ?thesis .
qed

lemma WrapPrefix_wrapper:
  assumes "heap s a = Some w"
  shows "WrapPrefix W (ErrorValue (Ptr (Some a))) pre skip cs s =
     Inr (Some a, s\<lparr>heap := (heap s)(a \<mapsto>
        w\<lparr>prefix := (if prefix w \<noteq> [] then pre @ '': '' @ prefix w else pre)\<rparr>)\<rparr>)"
  using assms
  by (simp add: WrapPrefix_def Wrap1_def thenE_simps load_simps store_def)

lemma WrapPrefix_other:
  assumes "\<not> isPtr e" and "e \<noteq> Nil" and "0 \<le> MaxStackDepth s"
  shows "WrapPrefix W (ErrorValue e) pre skip cs s =
     Inr (Some (next_addr s),
          s\<lparr>heap := (heap s)(next_addr s \<mapsto>
               \<lparr>err = e, stack1 = runtime_Callers (2 + skip) (nat (MaxStackDepth s)) cs,
                frames1 = None, prefix = pre\<rparr>),
            next_addr := Suc (next_addr s)\<rparr>)"
  using assms
  by (cases e)
     (simp_all add: WrapPrefix_def Wrap1_def cause_of_def capture_def thenE_simps alloc_def
        load_simps store_def)

text \<open>
  Claim C5. Let \<open>e\<close> be an error whose \<open>Error\<close> returns \<open>m\<close>, and let \<open>MaxStackDepth\<close>
  be non-negative. Then \<open>WrapPrefix(e, "B", 0)\<close> returns a wrapper, \<open>WrapPrefix\<close> of that
  wrapper with \<open>"A"\<close> returns the same wrapper, and its \<open>Error\<close> then returns \<open>"A: B: "\<close>
  followed by \<open>m\<close>. When \<open>e\<close> is itself a wrapper, both calls write its prefix in
  place, in front of the prefix it had (\<open>WrapPrefix_wrapper\<close>); otherwise the first
  call makes the wrapper with the prefix \<open>"B"\<close> (\<open>WrapPrefix_other\<close>).
\<close>

theorem WrapPrefix_accumulates:
  assumes "error_Error1 W (heap s) e = Some (Inr m)" and "0 \<le> MaxStackDepth s"
  shows "\<exists>r s1 s2.
           WrapPrefix W (ErrorValue e) ''B'' 0 cs s = Inr (r, s1) \<and>
           WrapPrefix W (ErrorValue (Ptr r)) ''A'' 0 cs' s1 = Inr (r, s2) \<and>
           error_Error1 W (heap s2) (Ptr r) = Some (Inr (''A: B: '' @ m))"
proof (cases "isPtr e")
  case False
  have nn: "e \<noteq> Nil" using assms(1) by (auto simp: error_Error1.simps)
  let ?a = "next_addr s"
  let ?w = "\<lparr>err = e, stack1 = runtime_Callers (2 + 0) (nat (MaxStackDepth s)) cs,
             frames1 = None, prefix = ''B''\<rparr>"
  let ?s1 = "s\<lparr>heap := (heap s)(?a \<mapsto> ?w), next_addr := Suc ?a\<rparr>"
  let ?w2 = "?w\<lparr>prefix := ''A'' @ '': '' @ ''B''\<rparr>"
  let ?s2 = "?s1\<lparr>heap := (heap ?s1)(?a \<mapsto> ?w2)\<rparr>"
  have 1: "WrapPrefix W (ErrorValue e) ''B'' 0 cs s = Inr (Some ?a, ?s1)"
    by (rule WrapPrefix_other[OF False nn assms(2)])
  have 2: "WrapPrefix W (ErrorValue (Ptr (Some ?a))) ''A'' 0 cs' ?s1 = Inr (Some ?a, ?s2)"
    by (subst WrapPrefix_wrapper[where w = ?w]) simp_all
  have "error_Error1 W (heap ?s2) e = Some (Inr m)"
    using error_Error1_nonPtr[OF False, of W "heap ?s2" "heap s"] assms(1) by simp
  then have 3: "error_Error1 W (heap ?s2) (Ptr (Some ?a)) = Some (Inr (''A: B: '' @ m))"
    by (subst error_Error1_Ptr[where w = ?w2]) simp_all
  from 1 2 3 show ?thesis by blast
next
  case True
  then obtain r where e: "e = Ptr r" by (cases e) auto
  obtain a w where a: "r = Some a" "heap s a = Some w"
    using assms(1) e
    by (cases r; cases "deref (heap s) r") (auto simp: error_Error1.simps deref_def)
  obtain y where y: "error_Error1 W (heap s) (err w) = Some y"
    and ym: "(case y of Inl p \<Rightarrow> Inl p
              | Inr msg \<Rightarrow> Inr (if prefix w \<noteq> [] then prefix w @ '': '' @ msg else msg)) = Inr m"
    using assms(1) e a by (auto simp: error_Error1_Ptr bind_eq_Some_conv)
  obtain m0 where m0: "error_Error1 W (heap s) (err w) = Some (Inr m0)"
    and m: "m = (if prefix w \<noteq> [] then prefix w @ '': '' @ m0 else m0)"
    using y ym by (cases y) auto
  let ?p1 = "if prefix w \<noteq> [] then ''B'' @ '': '' @ prefix w else ''B''"
  let ?s1 = "s\<lparr>heap := (heap s)(a \<mapsto> w\<lparr>prefix := ?p1\<rparr>)\<rparr>"
  let ?w2 = "w\<lparr>prefix := ''A'' @ '': '' @ ?p1\<rparr>"
  let ?s2 = "?s1\<lparr>heap := (heap ?s1)(a \<mapsto> ?w2)\<rparr>"
  have 1: "WrapPrefix W (ErrorValue e) ''B'' 0 cs s = Inr (Some a, ?s1)"
    unfolding e a(1) by (rule WrapPrefix_wrapper[OF a(2)])
  have 2: "WrapPrefix W (ErrorValue (Ptr (Some a))) ''A'' 0 cs' ?s1 = Inr (Some a, ?s2)"
    by (subst WrapPrefix_wrapper[where w = "w\<lparr>prefix := ?p1\<rparr>"]) simp_all
  have h2: "heap ?s2 = (heap s)(a \<mapsto> ?w2)" by simp
  have "error_Error1 W (heap ?s2) (err w) = Some (Inr m0)"
    unfolding h2
    using error_Error1_cause_update[where h = "heap s" and a = a and w = w and W = W and m = m
        and w' = ?w2] assms(1) e a m0
    by simp
  then have 3: "error_Error1 W (heap ?s2) (Ptr (Some a)) = Some (Inr (''A: B: '' @ m))"
    by (subst error_Error1_Ptr[where w = ?w2]) (simp_all add: m)
  from 1 2 3 show ?thesis unfolding a(1) by blast
qed

theorem WrapPrefix_accumulates_witness:
  "\<exists>r s1 s2.
     WrapPrefix test_env (ErrorValue (Foreign EOF)) ''B'' 0 [1, 2, 3] initial_state = Inr (r, s1) \<and>
     WrapPrefix test_env (ErrorValue (Ptr r)) ''A'' 0 [1, 2, 3] s1 = Inr (r, s2) \<and>
     error_Error1 test_env (heap s2) (Ptr r) = Some (Inr ''A: B: EOF'')"
  using WrapPrefix_accumulates[where W = test_env and s = initial_state and e = "Foreign EOF"
      and m = "''EOF''" and cs = "[1, 2, 3]" and cs' = "[1, 2, 3]"]
  by (simp add: error_Error1.simps test_env_def initial_state_def)

section \<open>The captured addresses of a wrapper never change\<close>

text \<open>The methods of the later edition that write the store write the field
  \<open>frames\<close> only: every object keeps its \<open>stack\<close> and its cause.\<close>

lemma Error_StackFrames_keeps_stack:
  assumes "Error_StackFrames W r s = Inr (fr, s')" and "heap s b = Some w"
  shows "\<exists>w'. heap s' b = Some w' \<and> stack w' = stack w \<and> Err w' = Err w"
  using assms
  by (auto simp: Error_StackFrames_def load_def deref_def thenE_def stackFrames_eq store_def
      split: option.splits sum.splits prod.splits if_splits)

lemma Error_StackTrace_keeps_stack:
  assumes "Error_StackTrace W r s = Inr (tr, s')" and "heap s b = Some w"
  shows "\<exists>w'. heap s' b = Some w' \<and> stack w' = stack w \<and> Err w' = Err w"
proof (cases r)
  case None
  then show ?thesis using assms by (simp add: Error_StackTrace_def load_simps thenE_simps)
next
  case (Some a)
  show ?thesis
  proof (cases "heap s a")
    case None
    then show ?thesis using assms Some by (simp add: Error_StackTrace_def load_simps thenE_simps)
  next
    case (Some wa)
    show ?thesis
      using assms \<open>r = Some a\<close> Some Error_StackTrace_eq[OF Some, of W]
      by (cases "frames wa") (auto split: if_splits)
  qed
qed

lemma Error_ErrorStack_keeps_stack:
  assumes "Error_ErrorStack W r s = Some (Inr (text, s'))" and "heap s b = Some w"
  shows "\<exists>w'. heap s' b = Some w' \<and> stack w' = stack w \<and> Err w' = Err w"
proof -
  from assms(1) obtain tr where "Error_StackTrace W r s = Inr (tr, s')"
    by (auto simp: Error_ErrorStack_def thenP_def thenR_def errorStack_def
        split: sum.splits option.splits prod.splits)
  from Error_StackTrace_keeps_stack[OF this assms(2)] show ?thesis .
qed

end
